theory Spec2Isabelle
  imports Main "HOL-Library.Word"
begin

section \<open>Strings and values of the host language\<close>

text \<open>
  A string of the program is a sequence of UTF-16 code units. String literals of the
  source are written with \<open>js\<close>, which maps each character to its code unit.
\<close>

type_synonym jsstring = "16 word list"

definition js :: "string \<Rightarrow> jsstring" where
  "js s = map of_char s"

text \<open>
  \<open>String(n)\<close> for a non-negative integer \<open>n\<close>: its decimal digits (the program only
  renders occurrence counts and minutes this way; the rendering is the decimal one for
  every integer below \<open>10^21\<close>).
\<close>

fun decimal :: "nat \<Rightarrow> jsstring" where
  "decimal n = (if n < 10 then [of_nat (48 + n)] else decimal (n div 10) @ [of_nat (48 + n mod 10)])"

declare decimal.simps [simp del]

text \<open>The values \<open>JSON.parse\<close> can return. A number keeps its lexeme; an object keeps
  its members in source order (a later duplicate of a key overrides an earlier one).\<close>

datatype json =
    JNull
  | JBool bool
  | JNum jsstring
  | JStr jsstring
  | JArr "json list"
  | JObj "(jsstring \<times> json) list"

datatype js_error = SyntaxError | TypeError

section \<open>\<open>JSON.parse\<close>\<close>

datatype token = TLBrace | TRBrace | TLBrack | TRBrack | TColon | TComma
  | TStr jsstring | TAtom json

definition is_json_ws :: "16 word \<Rightarrow> bool" where
  "is_json_ws c = (c = 0x20 \<or> c = 0x09 \<or> c = 0x0A \<or> c = 0x0D)"

definition is_digit :: "16 word \<Rightarrow> bool" where
  "is_digit c = (0x30 \<le> c \<and> c \<le> 0x39)"

definition hex_value :: "16 word \<Rightarrow> 16 word option" where
  "hex_value c =
     (if 0x30 \<le> c \<and> c \<le> 0x39 then Some (c - 0x30)
      else if 0x41 \<le> c \<and> c \<le> 0x46 then Some (c - 0x41 + 10)
      else if 0x61 \<le> c \<and> c \<le> 0x66 then Some (c - 0x61 + 10)
      else None)"

definition hex4 :: "16 word \<Rightarrow> 16 word \<Rightarrow> 16 word \<Rightarrow> 16 word \<Rightarrow> 16 word option" where
  "hex4 a b c d =
     (case (hex_value a, hex_value b, hex_value c, hex_value d) of
        (Some h1, Some h2, Some h3, Some h4) \<Rightarrow> Some (((h1 * 16 + h2) * 16 + h3) * 16 + h4)
      | _ \<Rightarrow> None)"

text \<open>The character after a backslash: \<open>" \ / b f n r t\<close>.\<close>

definition unescape :: "16 word \<Rightarrow> 16 word option" where
  "unescape e =
     (if e = 0x22 then Some 0x22
      else if e = 0x5C then Some 0x5C
      else if e = 0x2F then Some 0x2F
      else if e = 0x62 then Some 0x08
      else if e = 0x66 then Some 0x0C
      else if e = 0x6E then Some 0x0A
      else if e = 0x72 then Some 0x0D
      else if e = 0x74 then Some 0x09
      else None)"

text \<open>
  The body of a string literal, read from just after its opening quote: the decoded
  string and the number of code units read, closing quote included.
\<close>

fun scan_string :: "jsstring \<Rightarrow> (jsstring \<times> nat) option" where
  "scan_string [] = None"
| "scan_string (c # cs) =
     (if c = 0x22 then Some ([], 1)
      else if c = 0x5C then
        (case cs of
           [] \<Rightarrow> None
         | e # r \<Rightarrow>
             if e = 0x75 then
               (case r of
                  h1 # h2 # h3 # h4 # r' \<Rightarrow>
                    (case hex4 h1 h2 h3 h4 of
                       None \<Rightarrow> None
                     | Some u \<Rightarrow> map_option (\<lambda>(s, n). (u # s, n + 6)) (scan_string r'))
                | _ \<Rightarrow> None)
             else
               (case unescape e of
                  None \<Rightarrow> None
                | Some u \<Rightarrow> map_option (\<lambda>(s, n). (u # s, n + 2)) (scan_string r)))
      else if c < 0x20 then None
      else map_option (\<lambda>(s, n). (c # s, n + 1)) (scan_string cs))"

definition scan_digits :: "jsstring \<Rightarrow> jsstring" where
  "scan_digits cs = takeWhile is_digit cs"

text \<open>
  The longest prefix that is a number:
  \<open>-? (0 | [1-9][0-9]*) (\.[0-9]+)? ([eE][+-]?[0-9]+)?\<close>.
\<close>

definition scan_number :: "jsstring \<Rightarrow> jsstring option" where
  "scan_number cs =
     (let sign = (if take 1 cs = [0x2D] then [0x2D] else []);
          r0 = drop (length sign) cs;
          intpart = (if take 1 r0 = [0x30] then [0x30] else scan_digits r0);
          r1 = drop (length intpart) r0;
          fracdigits = scan_digits (drop 1 r1);
          frac = (if take 1 r1 = [0x2E] then 0x2E # fracdigits else []);
          r2 = drop (length frac) r1;
          esign = (if take 1 (drop 1 r2) = [0x2B] \<or> take 1 (drop 1 r2) = [0x2D]
                   then take 1 (drop 1 r2) else []);
          expdigits = scan_digits (drop (1 + length esign) r2);
          exp = (if take 1 r2 = [0x65] \<or> take 1 r2 = [0x45]
                 then take 1 r2 @ esign @ expdigits else [])
      in if intpart = [] then None
         else if frac \<noteq> [] \<and> fracdigits = [] then None
         else if exp \<noteq> [] \<and> expdigits = [] then None
         else Some (sign @ intpart @ frac @ exp))"

fun lex :: "jsstring \<Rightarrow> token list option" where
  "lex [] = Some []"
| "lex (c # cs) =
     (if is_json_ws c then lex cs
      else if c = 0x7B then map_option ((#) TLBrace) (lex cs)
      else if c = 0x7D then map_option ((#) TRBrace) (lex cs)
      else if c = 0x5B then map_option ((#) TLBrack) (lex cs)
      else if c = 0x5D then map_option ((#) TRBrack) (lex cs)
      else if c = 0x3A then map_option ((#) TColon) (lex cs)
      else if c = 0x2C then map_option ((#) TComma) (lex cs)
      else if c = 0x22 then
        (case scan_string cs of
           None \<Rightarrow> None
         | Some (s, n) \<Rightarrow> map_option ((#) (TStr s)) (lex (drop n cs)))
      else if c = 0x2D \<or> is_digit c then
        (case scan_number (c # cs) of
           None \<Rightarrow> None
         | Some l \<Rightarrow> map_option ((#) (TAtom (JNum l))) (lex (drop (length l - 1) cs)))
      else if take 4 (c # cs) = js ''true'' then
        map_option ((#) (TAtom (JBool True))) (lex (drop 3 cs))
      else if take 5 (c # cs) = js ''false'' then
        map_option ((#) (TAtom (JBool False))) (lex (drop 4 cs))
      else if take 4 (c # cs) = js ''null'' then
        map_option ((#) (TAtom JNull)) (lex (drop 3 cs))
      else None)"

text \<open>
  The grammar is checked by a stack automaton over the tokens. A frame is an array or
  an object under construction (members in reverse), or an object that has read a key
  and awaits that key's value.
\<close>

datatype frame =
    ArrF "json list"
  | ObjF "(jsstring \<times> json) list"
  | KeyF "(jsstring \<times> json) list" jsstring

datatype expect = EValue | EValueOrClose | EKeyOrClose | EKey | EColon | ECommaOrClose | EEnd

type_synonym pstate = "expect \<times> frame list \<times> json option"

fun close_value :: "json \<Rightarrow> frame list \<Rightarrow> pstate option" where
  "close_value v [] = Some (EEnd, [], Some v)"
| "close_value v (ArrF acc # st) = Some (ECommaOrClose, ArrF (v # acc) # st, None)"
| "close_value v (KeyF acc k # st) = Some (ECommaOrClose, ObjF ((k, v) # acc) # st, None)"
| "close_value v (ObjF acc # st) = None"

fun open_value :: "token \<Rightarrow> frame list \<Rightarrow> pstate option" where
  "open_value (TAtom v) st = close_value v st"
| "open_value (TStr s) st = close_value (JStr s) st"
| "open_value TLBrack st = Some (EValueOrClose, ArrF [] # st, None)"
| "open_value TLBrace st = Some (EKeyOrClose, ObjF [] # st, None)"
| "open_value _ st = None"

fun pstep :: "pstate \<Rightarrow> token \<Rightarrow> pstate option" where
  "pstep (EValue, st, r) t = open_value t st"
| "pstep (EValueOrClose, ArrF acc # st, r) TRBrack = close_value (JArr (rev acc)) st"
| "pstep (EValueOrClose, st, r) t = open_value t st"
| "pstep (EKeyOrClose, ObjF acc # st, r) TRBrace = close_value (JObj (rev acc)) st"
| "pstep (EKeyOrClose, ObjF acc # st, r) (TStr k) = Some (EColon, KeyF acc k # st, None)"
| "pstep (EKey, ObjF acc # st, r) (TStr k) = Some (EColon, KeyF acc k # st, None)"
| "pstep (EColon, st, r) TColon = Some (EValue, st, None)"
| "pstep (ECommaOrClose, ArrF acc # st, r) TComma = Some (EValue, ArrF acc # st, None)"
| "pstep (ECommaOrClose, ObjF acc # st, r) TComma = Some (EKey, ObjF acc # st, None)"
| "pstep (ECommaOrClose, ArrF acc # st, r) TRBrack = close_value (JArr (rev acc)) st"
| "pstep (ECommaOrClose, ObjF acc # st, r) TRBrace = close_value (JObj (rev acc)) st"
| "pstep _ _ = None"

fun psteps :: "pstate \<Rightarrow> token list \<Rightarrow> pstate option" where
  "psteps p [] = Some p"
| "psteps p (t # ts) = (case pstep p t of None \<Rightarrow> None | Some p' \<Rightarrow> psteps p' ts)"

definition JSON_parse :: "jsstring \<Rightarrow> js_error + json" where
  "JSON_parse text =
     (case lex text of
        None \<Rightarrow> Inl SyntaxError
      | Some ts \<Rightarrow>
          (case psteps (EValue, [], None) ts of
             Some (EEnd, [], Some v) \<Rightarrow> Inr v
           | _ \<Rightarrow> Inl SyntaxError))"

section \<open>The cache key\<close>

text \<open>
  \<open>parsedMessage.level\<close> and \<open>parsedMessage.message\<close>: reading a property of \<open>null\<close>
  throws a \<open>TypeError\<close>; an object yields its last member of that name, or \<open>undefined\<close>
  (\<open>None\<close>); every other value yields \<open>undefined\<close>, since no prototype defines these two
  names.
\<close>

definition get_property :: "json \<Rightarrow> jsstring \<Rightarrow> js_error + json option" where
  "get_property v k =
     (case v of
        JNull \<Rightarrow> Inl TypeError
      | JObj members \<Rightarrow> Inr (map_of (rev members) k)
      | _ \<Rightarrow> Inr None)"

fun collect :: "(js_error + 'a) list \<Rightarrow> js_error + 'a list" where
  "collect [] = Inr []"
| "collect (x # xs) =
     (case x of
        Inl e \<Rightarrow> Inl e
      | Inr v \<Rightarrow> (case collect xs of Inl e \<Rightarrow> Inl e | Inr vs \<Rightarrow> Inr (v # vs)))"

fun join :: "jsstring \<Rightarrow> jsstring list \<Rightarrow> jsstring" where
  "join sep [] = []"
| "join sep [s] = s"
| "join sep (s # t # ss) = s @ sep @ join sep (t # ss)"

text \<open>
  The conversion a template literal applies to a parsed value. The first argument is the
  host's rendering of the number a lexeme denotes (a double; not modelled). An array is
  joined with commas, \<open>null\<close> elements giving the empty string. An object is
  \<open>[object Object]\<close>, unless it has a member named \<open>toString\<close>: that member shadows the
  inherited method and is not callable, so the conversion throws a \<open>TypeError\<close>.
\<close>

fun ToString :: "(jsstring \<Rightarrow> jsstring) \<Rightarrow> json \<Rightarrow> js_error + jsstring" where
  "ToString n2s JNull = Inr (js ''null'')"
| "ToString n2s (JBool b) = Inr (if b then js ''true'' else js ''false'')"
| "ToString n2s (JNum l) = Inr (n2s l)"
| "ToString n2s (JStr s) = Inr s"
| "ToString n2s (JArr xs) =
     (case collect (map (\<lambda>x. if x = JNull then Inr [] else ToString n2s x) xs) of
        Inl e \<Rightarrow> Inl e
      | Inr ss \<Rightarrow> Inr (join (js '','') ss))"
| "ToString n2s (JObj members) =
     (if js ''toString'' \<in> set (map fst members) then Inl TypeError
      else Inr (js ''[object Object]''))"

definition template_value :: "(jsstring \<Rightarrow> jsstring) \<Rightarrow> json option \<Rightarrow> js_error + jsstring" where
  "template_value n2s v = (case v of None \<Rightarrow> Inr (js ''undefined'') | Some x \<Rightarrow> ToString n2s x)"

text \<open>\<^verbatim>\<open>const cacheKey = `${parsedMessage.level}: ${parsedMessage.message}`;\<close>\<close>

definition cacheKey :: "(jsstring \<Rightarrow> jsstring) \<Rightarrow> json \<Rightarrow> js_error + jsstring" where
  "cacheKey n2s parsedMessage =
     (case get_property parsedMessage (js ''level'') of
        Inl e \<Rightarrow> Inl e
      | Inr level \<Rightarrow>
          (case template_value n2s level of
             Inl e \<Rightarrow> Inl e
           | Inr l \<Rightarrow>
               (case get_property parsedMessage (js ''message'') of
                  Inl e \<Rightarrow> Inl e
                | Inr message \<Rightarrow>
                    (case template_value n2s message of
                       Inl e \<Rightarrow> Inl e
                     | Inr m \<Rightarrow> Inr (l @ js '': '' @ m)))))"

section \<open>The logger\<close>

text \<open>
  The clock, the window and the times of the last sends are whole numbers of
  milliseconds, as \<open>Date.now()\<close> returns them; the host computes with such numbers
  exactly up to \<open>2^53\<close>. The repository also holds an earlier revision of the module:
  its handler is the same, it reads the name from the options, and it has no daily
  clear.
\<close>

text \<open>
  \<open>ErrorCacheEntry\<close>: occurrences since the last reset, and the time in epoch
  milliseconds of the last dispatch (\<open>0\<close>: never).
\<close>

record ErrorCacheEntry =
  count :: nat
  lastSent :: int

record AppLoggerOptions =
  opt_name :: jsstring
  opt_dailyErrorCacheTimeMs :: "int option"

record AppLogger =
  name :: jsstring
  dailyErrorCacheTimeMs :: int
  dailyErrorCache :: "jsstring \<rightharpoonup> ErrorCacheEntry"

text \<open>The module \<open>config\<close>, as the logger reads it; the port is a number of the host.\<close>

record 'n config =
  EMAIL_TO :: "jsstring list"
  EMAIL_FROM :: jsstring
  EMAIL_HOST :: jsstring
  EMAIL_PORT :: 'n
  EMAIL_USER :: jsstring
  EMAIL_PASSWORD :: jsstring

record mail =
  mail_from :: jsstring
  mail_to :: jsstring
  mail_subject :: jsstring
  mail_text :: jsstring

text \<open>How the promise of one \<open>sendMail\<close> call settles.\<close>

datatype settled = Fulfilled | Rejected jsstring

text \<open>
  What the handler takes from outside the program: the rendering of numbers, and the
  mail transport, which settles the send to the \<open>i\<close>-th recipient of a dispatch.
\<close>

record host =
  Number_toString :: "jsstring \<Rightarrow> jsstring"
  sendMail :: "nat \<Rightarrow> mail \<Rightarrow> settled"

text \<open>What one call of the handler does to the outside: the mails it hands to the
  transport, in order, and the lines the rejected sends later write with
  \<open>console.error\<close>.\<close>

record delivery =
  sent :: "mail list"
  console_error :: "(jsstring \<times> jsstring) list"

text \<open>The constructor: an absent or negative window is \<open>0\<close>; the cache starts empty.\<close>

definition AppLogger_new :: "AppLoggerOptions \<Rightarrow> AppLogger" where
  "AppLogger_new options =
     \<lparr> name = opt_name options,
       dailyErrorCacheTimeMs =
         (case opt_dailyErrorCacheTimeMs options of
            None \<Rightarrow> 0
          | Some d \<Rightarrow> if d < 0 then 0 else d),
       dailyErrorCache = Map.empty \<rparr>"

text \<open>The callback of \<open>setInterval\<close>, run once every 24 hours.\<close>

definition clear :: "AppLogger \<Rightarrow> AppLogger" where
  "clear this = this\<lparr> dailyErrorCache := Map.empty \<rparr>"

text \<open>\<open>Math.round(this.dailyErrorCacheTimeMs / 1000 / 60)\<close>, for a window of whole
  milliseconds that is not negative: halves round up.\<close>

definition dailyErrorCacheTimeMinutes :: "AppLogger \<Rightarrow> nat" where
  "dailyErrorCacheTimeMinutes this = nat ((dailyErrorCacheTimeMs this + 30000) div 60000)"

definition emailSubject :: "AppLogger \<Rightarrow> nat \<Rightarrow> jsstring" where
  "emailSubject this n =
     (if dailyErrorCacheTimeMs this > 0
      then name this @ js '' Error ('' @ decimal n @ js '' occurrences in past ''
             @ decimal (dailyErrorCacheTimeMinutes this) @ js '' minutes)''
      else name this @ js '' Error'')"

text \<open>The loop over \<open>config.EMAIL_TO\<close>: one \<open>sendMail\<close> per recipient, each paired with
  how its promise settles.\<close>

fun send_each ::
  "(nat \<Rightarrow> mail \<Rightarrow> settled) \<Rightarrow> jsstring \<Rightarrow> jsstring \<Rightarrow> jsstring \<Rightarrow> nat \<Rightarrow> jsstring list
     \<Rightarrow> (mail \<times> settled) list" where
  "send_each transport sender subject body i [] = []"
| "send_each transport sender subject body i (admin # admins) =
     (let m = \<lparr> mail_from = sender, mail_to = admin, mail_subject = subject, mail_text = body \<rparr>
      in (m, transport i m) # send_each transport sender subject body (Suc i) admins)"

text \<open>The \<open>.catch\<close> handler of one send.\<close>

fun on_settled :: "settled \<Rightarrow> (jsstring \<times> jsstring) list" where
  "on_settled Fulfilled = []"
| "on_settled (Rejected error) = [(js ''Failed to send error email: '', error)]"

definition dispatch :: "host \<Rightarrow> 'n config \<Rightarrow> jsstring \<Rightarrow> jsstring \<Rightarrow> delivery" where
  "dispatch h cfg subject body =
     (let attempts = send_each (sendMail h) (EMAIL_FROM cfg) subject body 0 (EMAIL_TO cfg)
      in \<lparr> sent = map fst attempts, console_error = concat (map (\<lambda>a. on_settled (snd a)) attempts) \<rparr>)"

text \<open>\<^verbatim>\<open>this.dailyErrorCache.get(cacheKey) || { count: 0, lastSent: 0 }\<close>\<close>

definition get_or_new :: "AppLogger \<Rightarrow> jsstring \<Rightarrow> ErrorCacheEntry" where
  "get_or_new this key =
     (case dailyErrorCache this key of
        Some entry \<Rightarrow> entry
      | None \<Rightarrow> \<lparr> count = 0, lastSent = 0 \<rparr>)"

text \<open>
  The \<open>write\<close> function of the stream behind \<open>mailTransportInstance\<close>. \<open>now\<close> is the
  value of \<open>Date.now()\<close>, \<open>message\<close> the text of the chunk. A throw of \<open>JSON.parse\<close> or
  of the template literal leaves the handler before it touches the cache.
\<close>

definition mailTransportInstance_write ::
  "host \<Rightarrow> 'n config \<Rightarrow> AppLogger \<Rightarrow> int \<Rightarrow> jsstring \<Rightarrow> js_error + AppLogger \<times> delivery" where
  "mailTransportInstance_write h cfg this now message =
     (case JSON_parse message of
        Inl e \<Rightarrow> Inl e
      | Inr parsedMessage \<Rightarrow>
          (case cacheKey (Number_toString h) parsedMessage of
             Inl e \<Rightarrow> Inl e
           | Inr key \<Rightarrow>
               (let found = get_or_new this key;
                    cacheEntry = found\<lparr> count := count found + 1 \<rparr>
                in if now - lastSent cacheEntry > dailyErrorCacheTimeMs this
                   then Inr (this\<lparr> dailyErrorCache :=
                                 (dailyErrorCache this)
                                   (key \<mapsto> cacheEntry\<lparr> count := 0, lastSent := now \<rparr>) \<rparr>,
                             dispatch h cfg (emailSubject this (count cacheEntry)) message)
                   else Inr (this\<lparr> dailyErrorCache := (dailyErrorCache this)(key \<mapsto> cacheEntry) \<rparr>,
                             \<lparr> sent = [], console_error = [] \<rparr>))))"

text \<open>
  The records the stream hands to the handler, one call after the other, each at its
  clock value. A call that throws never reaches its callback: the stream stays in its
  writing state and hands no later record to the handler.
\<close>

fun writes ::
  "host \<Rightarrow> 'n config \<Rightarrow> AppLogger \<Rightarrow> (int \<times> jsstring) list
     \<Rightarrow> AppLogger \<times> (js_error + delivery) list" where
  "writes h cfg this [] = (this, [])"
| "writes h cfg this ((now, message) # events) =
     (case mailTransportInstance_write h cfg this now message of
        Inl e \<Rightarrow> (this, [Inl e])
      | Inr (this', d) \<Rightarrow> (let (final, out) = writes h cfg this' events in (final, Inr d # out)))"

section \<open>The configuration module\<close>

text \<open>
  The pattern of the source is built from classes of code units, sequence, choice and
  iteration, and is tested by derivatives. The source's pattern is anchored at both
  ends, so \<open>test\<close> asks for a match of the whole string.
\<close>

datatype regex =
    Never
  | Empty
  | Class "16 word \<Rightarrow> bool"
  | Alt regex regex
  | Seq regex regex
  | Star regex

definition Plus :: "regex \<Rightarrow> regex" where
  "Plus r = Seq r (Star r)"

fun nullable :: "regex \<Rightarrow> bool" where
  "nullable Never = False"
| "nullable Empty = True"
| "nullable (Class p) = False"
| "nullable (Alt r s) = (nullable r \<or> nullable s)"
| "nullable (Seq r s) = (nullable r \<and> nullable s)"
| "nullable (Star r) = True"

fun deriv :: "16 word \<Rightarrow> regex \<Rightarrow> regex" where
  "deriv c Never = Never"
| "deriv c Empty = Never"
| "deriv c (Class p) = (if p c then Empty else Never)"
| "deriv c (Alt r s) = Alt (deriv c r) (deriv c s)"
| "deriv c (Seq r s) =
     (if nullable r then Alt (Seq (deriv c r) s) (deriv c s) else Seq (deriv c r) s)"
| "deriv c (Star r) = Seq (deriv c r) (Star r)"

definition regex_test :: "regex \<Rightarrow> jsstring \<Rightarrow> bool" where
  "regex_test r s = nullable (foldl (\<lambda>r c. deriv c r) r s)"

text \<open>
  White space and line terminators: what \<open>\s\<close> matches and what \<open>trim\<close> removes.
\<close>

definition is_space :: "16 word \<Rightarrow> bool" where
  "is_space c =
     ((0x09 \<le> c \<and> c \<le> 0x0D) \<or> c = 0x20 \<or> c = 0xA0 \<or> c = 0x1680
      \<or> (0x2000 \<le> c \<and> c \<le> 0x200A) \<or> c = 0x2028 \<or> c = 0x2029 \<or> c = 0x202F
      \<or> c = 0x205F \<or> c = 0x3000 \<or> c = 0xFEFF)"

text \<open>\<^verbatim>\<open>/^[^\s@]+@[^\s@]+\.[^\s@]+$/\<close>\<close>

definition email_pattern :: regex where
  "email_pattern =
     (let part = Plus (Class (\<lambda>c. \<not> is_space c \<and> c \<noteq> 0x40))
      in Seq part (Seq (Class (\<lambda>c. c = 0x40)) (Seq part (Seq (Class (\<lambda>c. c = 0x2E)) part))))"

definition trim :: "jsstring \<Rightarrow> jsstring" where
  "trim s = rev (dropWhile is_space (rev (dropWhile is_space s)))"

text \<open>\<open>str.split(sep)\<close> for a separator of one code unit.\<close>

fun split_on :: "16 word \<Rightarrow> jsstring \<Rightarrow> jsstring list" where
  "split_on sep [] = [[]]"
| "split_on sep (c # cs) =
     (if c = sep then [] # split_on sep cs
      else (case split_on sep cs of
              [] \<Rightarrow> [[c]]
            | piece # pieces \<Rightarrow> (c # piece) # pieces))"

datatype config_error = Error jsstring | ZodError

text \<open>The transform of \<open>EMAIL_TO\<close>: the inner throw is caught and thrown again with the
  message of the source.\<close>

definition EMAIL_TO_transform :: "jsstring \<Rightarrow> config_error + jsstring list" where
  "EMAIL_TO_transform str =
     (let emails = map trim (split_on 0x2C str)
      in if \<not> list_all (regex_test email_pattern) emails
         then Inl (Error (js ''Invalid email list format: must be comma-separated email addresses''))
         else Inr emails)"

text \<open>The variables of the environment the schema reads; \<open>None\<close> is an unset variable.\<close>

record process_env =
  env_EMAIL_TO :: "jsstring option"
  env_EMAIL_FROM :: "jsstring option"
  env_EMAIL_HOST :: "jsstring option"
  env_EMAIL_PORT :: "jsstring option"
  env_EMAIL_USER :: "jsstring option"
  env_EMAIL_PASSWORD :: "jsstring option"

text \<open>
  The checks of the validation library that the schema names and the source does not
  define: \<open>z.string().email()\<close> and \<open>z.coerce.number().min(0)\<close>.
\<close>

record 'n zod =
  z_email :: "jsstring \<Rightarrow> bool"
  z_coerce_number_min0 :: "jsstring option \<Rightarrow> 'n option"

text \<open>
  \<open>envSchema.parse\<close> on the environment. The fields are checked in the order of the
  schema; a throw of the transform leaves the parse at once, every other failure is a
  \<open>ZodError\<close>.
\<close>

definition config :: "'n zod \<Rightarrow> process_env \<Rightarrow> config_error + 'n config" where
  "config z env =
     (case env_EMAIL_TO env of
        None \<Rightarrow> Inl ZodError
      | Some str \<Rightarrow>
          (case EMAIL_TO_transform str of
             Inl e \<Rightarrow> Inl e
           | Inr emails \<Rightarrow>
               (case (env_EMAIL_FROM env, env_EMAIL_HOST env,
                      z_coerce_number_min0 z (env_EMAIL_PORT env),
                      env_EMAIL_USER env, env_EMAIL_PASSWORD env) of
                  (Some sender, Some mailhost, Some port, Some user, Some password) \<Rightarrow>
                    if z_email z sender \<and> z_email z user
                    then Inr \<lparr> EMAIL_TO = emails, EMAIL_FROM = sender, EMAIL_HOST = mailhost,
                               EMAIL_PORT = port, EMAIL_USER = user, EMAIL_PASSWORD = password \<rparr>
                    else Inl ZodError
                | _ \<Rightarrow> Inl ZodError)))"

text \<open>
  The logger's module imports the configuration module, whose body is the parse above:
  a throw there ends the import, and only a program that got a configuration can go on
  to construct a logger.
\<close>

definition startup ::
  "'n zod \<Rightarrow> process_env \<Rightarrow> AppLoggerOptions \<Rightarrow> config_error + 'n config \<times> AppLogger" where
  "startup z env options =
     (case config z env of
        Inl e \<Rightarrow> Inl e
      | Inr cfg \<Rightarrow> Inr (cfg, AppLogger_new options))"

section \<open>The handler, statement by statement\<close>

text \<open>
  The function \<open>mailTransportInstance_write\<close> gives the effect of a whole call of the
  handler. To speak of what can happen between two statements of a call, the same
  handler is given a second time, as a machine that executes one statement in a step,
  beside the other jobs of the process: the stream that hands over the next record, the
  timer of the daily clear, and the reactions to rejected sends.

  The cache is a \<open>Map\<close> whose values are objects. \<open>get\<close> returns the stored object itself,
  \<open>count++\<close> and the assignments of lines 97 and 98 change that object in place, and
  \<open>set\<close> stores a reference to it. A store therefore keeps the objects by address, and
  the map as a table from keys to addresses; \<open>allocated\<close> is the next free address.
\<close>

record store =
  objects :: "nat \<Rightarrow> ErrorCacheEntry"
  allocated :: nat
  slots :: "jsstring \<rightharpoonup> nat"

text \<open>What \<open>dailyErrorCache.get\<close> shows of a store.\<close>

definition contents :: "store \<Rightarrow> jsstring \<rightharpoonup> ErrorCacheEntry" where
  "contents st key = map_option (objects st) (slots st key)"

text \<open>
  The points of the handler are named after the lines of \<open>logger.ts\<close> whose statement is
  executed next; \<open>L86 i\<close> is the loop over the recipients before its round \<open>i\<close>. A call
  ends by returning, after its callback, or by throwing.
\<close>

datatype point =
    L73 | L74 | L76 | L77 | L78 | L81 | L82 | L86 nat | L97 | L98 | L101 | L103
  | Returned | Thrown js_error

text \<open>The local variables of a call; \<open>f_cacheEntry\<close> holds the address of the entry.\<close>

record activation =
  f_at :: point
  f_message :: jsstring
  f_clock :: int
  f_parsedMessage :: json
  f_cacheKey :: jsstring
  f_now :: int
  f_cacheEntry :: nat
  f_emailSubject :: jsstring

definition enter :: "int \<Rightarrow> jsstring \<Rightarrow> activation" where
  "enter t message =
     \<lparr> f_at = L73, f_message = message, f_clock = t, f_parsedMessage = JNull,
       f_cacheKey = [], f_now = 0, f_cacheEntry = 0, f_emailSubject = [] \<rparr>"

definition finished :: "point \<Rightarrow> bool" where
  "finished pt = (case pt of Returned \<Rightarrow> True | Thrown e \<Rightarrow> True | _ \<Rightarrow> False)"

text \<open>
  A running function gives way to other jobs where it awaits. The handler is an arrow
  function that is not \<open>async\<close>, and none of its statements awaits: the promise that
  \<open>sendMail\<close> returns only gets its \<open>catch\<close> handler.
\<close>

definition awaits :: "point \<Rightarrow> bool" where
  "awaits pt = False"

text \<open>
  The process: the store, the call that is running, the calls that wait for a promise,
  the records the stream has buffered for the handler, whether the stream waits for the
  callback of a call, the mails handed to the transport, the rejections no handler has
  seen yet, and the lines on the console.
\<close>

record machine =
  memory :: store
  running :: "activation option"
  awaiting :: "activation list"
  inbox :: "(int \<times> jsstring) list"
  writing :: bool
  handed :: "mail list"
  rejected :: "jsstring list"
  console :: "(jsstring \<times> jsstring) list"

text \<open>The statement at the point of a call, lines 73 to 103.\<close>

definition statement ::
  "host \<Rightarrow> 'n config \<Rightarrow> AppLogger \<Rightarrow> activation \<Rightarrow> machine \<Rightarrow> machine" where
  "statement h cfg this f m =
     (let st = memory m; entry = objects st (f_cacheEntry f) in
      case f_at f of
        L73 \<Rightarrow>
          (case JSON_parse (f_message f) of
             Inl e \<Rightarrow> m\<lparr> running := Some (f\<lparr> f_at := Thrown e \<rparr>) \<rparr>
           | Inr parsed \<Rightarrow> m\<lparr> running := Some (f\<lparr> f_at := L74, f_parsedMessage := parsed \<rparr>) \<rparr>)
      | L74 \<Rightarrow>
          (case cacheKey (Number_toString h) (f_parsedMessage f) of
             Inl e \<Rightarrow> m\<lparr> running := Some (f\<lparr> f_at := Thrown e \<rparr>) \<rparr>
           | Inr key \<Rightarrow> m\<lparr> running := Some (f\<lparr> f_at := L76, f_cacheKey := key \<rparr>) \<rparr>)
      | L76 \<Rightarrow> m\<lparr> running := Some (f\<lparr> f_at := L77, f_now := f_clock f \<rparr>) \<rparr>
      | L77 \<Rightarrow>
          (case slots st (f_cacheKey f) of
             Some a \<Rightarrow> m\<lparr> running := Some (f\<lparr> f_at := L78, f_cacheEntry := a \<rparr>) \<rparr>
           | None \<Rightarrow>
               m\<lparr> running := Some (f\<lparr> f_at := L78, f_cacheEntry := allocated st \<rparr>),
                  memory := st\<lparr> objects := (objects st)(allocated st := \<lparr> count = 0, lastSent = 0 \<rparr>),
                                 allocated := Suc (allocated st) \<rparr> \<rparr>)
      | L78 \<Rightarrow>
          m\<lparr> running := Some (f\<lparr> f_at := L81 \<rparr>),
             memory := st\<lparr> objects := (objects st)(f_cacheEntry f := entry\<lparr> count := count entry + 1 \<rparr>) \<rparr> \<rparr>
      | L81 \<Rightarrow>
          (if f_now f - lastSent entry > dailyErrorCacheTimeMs this
           then m\<lparr> running := Some (f\<lparr> f_at := L82 \<rparr>) \<rparr>
           else m\<lparr> running := Some (f\<lparr> f_at := L101 \<rparr>) \<rparr>)
      | L82 \<Rightarrow>
          m\<lparr> running := Some (f\<lparr> f_at := L86 0, f_emailSubject := emailSubject this (count entry) \<rparr>) \<rparr>
      | L86 i \<Rightarrow>
          (if i < length (EMAIL_TO cfg)
           then (let letter = \<lparr> mail_from = EMAIL_FROM cfg, mail_to = EMAIL_TO cfg ! i,
                                 mail_subject = f_emailSubject f, mail_text = f_message f \<rparr>
                 in m\<lparr> running := Some (f\<lparr> f_at := L86 (Suc i) \<rparr>),
                       handed := handed m @ [letter],
                       rejected := rejected m @
                         (case sendMail h i letter of Fulfilled \<Rightarrow> [] | Rejected error \<Rightarrow> [error]) \<rparr>)
           else m\<lparr> running := Some (f\<lparr> f_at := L97 \<rparr>) \<rparr>)
      | L97 \<Rightarrow>
          m\<lparr> running := Some (f\<lparr> f_at := L98 \<rparr>),
             memory := st\<lparr> objects := (objects st)(f_cacheEntry f := entry\<lparr> count := 0 \<rparr>) \<rparr> \<rparr>
      | L98 \<Rightarrow>
          m\<lparr> running := Some (f\<lparr> f_at := L101 \<rparr>),
             memory := st\<lparr> objects := (objects st)(f_cacheEntry f := entry\<lparr> lastSent := f_now f \<rparr>) \<rparr> \<rparr>
      | L101 \<Rightarrow>
          m\<lparr> running := Some (f\<lparr> f_at := L103 \<rparr>),
             memory := st\<lparr> slots := (slots st)(f_cacheKey f \<mapsto> f_cacheEntry f) \<rparr> \<rparr>
      | L103 \<Rightarrow> m\<lparr> running := Some (f\<lparr> f_at := Returned \<rparr>), writing := False \<rparr>
      | Returned \<Rightarrow> m
      | Thrown e \<Rightarrow> m)"

text \<open>
  The turns of the process. A job runs to completion: as long as a call is running, the
  only turn is its next statement, unless the call awaits there, where it is set aside
  and resumed in a later turn. Only when no call is running can another job take a turn:
  the stream hands its next buffered record to the handler, if the callback of the call
  before has been called; some other job logs an error, whose record the stream buffers;
  the timer clears the map; a rejected send reaches its \<open>catch\<close> handler, which writes
  to the console.
\<close>

datatype turn_label = Begin | Arrive | Statement point | Yield point | Leave | Resume | Tick | React

inductive turn ::
  "host \<Rightarrow> 'n config \<Rightarrow> AppLogger \<Rightarrow> machine \<Rightarrow> turn_label \<Rightarrow> machine \<Rightarrow> bool"
  for h :: host and cfg :: "'n config" and this :: AppLogger where
  start:
    "running m = None \<Longrightarrow> \<not> writing m \<Longrightarrow> inbox m = (t, message) # later
       \<Longrightarrow> turn h cfg this m Begin
             (m\<lparr> running := Some (enter t message), inbox := later, writing := True \<rparr>)"
| arrive:
    "running m = None
       \<Longrightarrow> turn h cfg this m Arrive (m\<lparr> inbox := inbox m @ [chunk] \<rparr>)"
| run:
    "running m = Some f \<Longrightarrow> \<not> finished (f_at f) \<Longrightarrow> \<not> awaits (f_at f)
       \<Longrightarrow> turn h cfg this m (Statement (f_at f)) (statement h cfg this f m)"
| park:
    "running m = Some f \<Longrightarrow> \<not> finished (f_at f) \<Longrightarrow> awaits (f_at f)
       \<Longrightarrow> statement h cfg this f m = m' \<Longrightarrow> running m' = Some f'
       \<Longrightarrow> turn h cfg this m (Yield (f_at f)) (m'\<lparr> running := None, awaiting := f' # awaiting m' \<rparr>)"
| leave:
    "running m = Some f \<Longrightarrow> finished (f_at f)
       \<Longrightarrow> turn h cfg this m Leave (m\<lparr> running := None \<rparr>)"
| wake:
    "running m = None \<Longrightarrow> awaiting m = before @ f # after
       \<Longrightarrow> turn h cfg this m Resume (m\<lparr> running := Some f, awaiting := before @ after \<rparr>)"
| tick:
    "running m = None
       \<Longrightarrow> turn h cfg this m Tick (m\<lparr> memory := (memory m)\<lparr> slots := Map.empty \<rparr> \<rparr>)"
| react:
    "running m = None \<Longrightarrow> rejected m = before @ error # after
       \<Longrightarrow> turn h cfg this m React
             (m\<lparr> rejected := before @ after,
                 console := console m @ [(js ''Failed to send error email: '', error)] \<rparr>)"

text \<open>A sequence of turns, with the labels of its turns.\<close>

inductive turns ::
  "host \<Rightarrow> 'n config \<Rightarrow> AppLogger \<Rightarrow> machine \<Rightarrow> turn_label list \<Rightarrow> machine \<Rightarrow> bool"
  for h :: host and cfg :: "'n config" and this :: AppLogger where
  stay: "turns h cfg this m [] m"
| go: "turn h cfg this m l m1 \<Longrightarrow> turns h cfg this m1 ls m' \<Longrightarrow> turns h cfg this m (l # ls) m'"

section \<open>A deployment used in the examples\<close>

definition example_host :: host where
  "example_host = \<lparr> Number_toString = (\<lambda>l. l), sendMail = (\<lambda>i m. Fulfilled) \<rparr>"


definition example_config :: "nat config" where
  "example_config =
     \<lparr> EMAIL_TO = [js ''ops@example.com''],
       EMAIL_FROM = js ''logger@example.com'',
       EMAIL_HOST = js ''smtp.example.com'',
       EMAIL_PORT = 587,
       EMAIL_USER = js ''logger@example.com'',
       EMAIL_PASSWORD = js ''secret'' \<rparr>"


definition example_options :: AppLoggerOptions where
  "example_options = \<lparr> opt_name = js ''app'', opt_dailyErrorCacheTimeMs = Some 60000 \<rparr>"

text \<open>A logger with a window of one minute, and one constructed without a window.\<close>

definition minute_logger :: AppLogger where
  "minute_logger = AppLogger_new example_options"

definition unbatched_logger :: AppLogger where
  "unbatched_logger = AppLogger_new \<lparr> opt_name = js ''app'', opt_dailyErrorCacheTimeMs = None \<rparr>"

text \<open>An error record as the logger's format writes it: the fields on lines of their
  own, indented by two spaces, then the end of line of the stream.\<close>

definition disk_full :: jsstring where
  \<open>disk_full =
     js ''{'' @ [0x0A]
     @ js ''  "level": "error",'' @ [0x0A]
     @ js ''  "message": "disk full",'' @ [0x0A]
     @ js ''  "timestamp": "2024-05-01 12:00:00"'' @ [0x0A]
     @ js ''}'' @ [0x0A]\<close>

definition disk_full_record :: json where
  "disk_full_record =
     JObj [(js ''level'', JStr (js ''error'')),
           (js ''message'', JStr (js ''disk full'')),
           (js ''timestamp'', JStr (js ''2024-05-01 12:00:00''))]"

definition disk_full_key :: jsstring where
  "disk_full_key = js ''error: disk full''"

text \<open>The one-minute logger after it has counted two occurrences since its send at
  90000, and the logger without a window just after a send at 1000.\<close>

definition seen_logger :: AppLogger where
  "seen_logger =
     minute_logger\<lparr> dailyErrorCache := [disk_full_key \<mapsto> \<lparr> count = 2, lastSent = 90000 \<rparr>] \<rparr>"

definition just_sent_logger :: AppLogger where
  "just_sent_logger =
     unbatched_logger\<lparr> dailyErrorCache := [disk_full_key \<mapsto> \<lparr> count = 0, lastSent = 1000 \<rparr>] \<rparr>"

text \<open>Library checks for the examples: an address is checked by the pattern above, a
  port is a string of digits.\<close>

definition example_zod :: "nat zod" where
  "example_zod =
     \<lparr> z_email = regex_test email_pattern,
       z_coerce_number_min0 =
         (\<lambda>v. case v of
                None \<Rightarrow> None
              | Some s \<Rightarrow> if s \<noteq> [] \<and> list_all is_digit s
                          then Some (foldl (\<lambda>n c. 10 * n + unat (c - 0x30)) 0 s) else None) \<rparr>"

definition example_env :: process_env where
  "example_env =
     \<lparr> env_EMAIL_TO = Some (js ''ops@example.com, dev@example.com''),
       env_EMAIL_FROM = Some (js ''logger@example.com''),
       env_EMAIL_HOST = Some (js ''smtp.example.com''),
       env_EMAIL_PORT = Some (js ''587''),
       env_EMAIL_USER = Some (js ''logger@example.com''),
       env_EMAIL_PASSWORD = Some (js ''secret'') \<rparr>"

definition bad_env :: process_env where
  "bad_env = example_env\<lparr> env_EMAIL_TO := Some (js ''ops@example.com,not-an-email'') \<rparr>"


text \<open>An environment whose only recipient has an empty label in its domain.\<close>

definition lenient_env :: process_env where
  "lenient_env = example_env\<lparr> env_EMAIL_TO := Some (js ''a@b..c'') \<rparr>"

text \<open>The process of the one-minute logger that has counted two occurrences since its
  send at 90000: the handler has just been called with the record of 160000, and the
  stream has buffered the record of 160001.\<close>

definition seen_store :: store where
  "seen_store =
     \<lparr> objects = (\<lambda>a. \<lparr> count = 2, lastSent = 90000 \<rparr>), allocated = 1,
       slots = [disk_full_key \<mapsto> 0] \<rparr>"

definition seen_machine :: machine where
  "seen_machine =
     \<lparr> memory = seen_store, running = Some (enter 160000 disk_full), awaiting = [],
       inbox = [(160001, disk_full)], writing = True, handed = [], rejected = [], console = [] \<rparr>"

section \<open>Vocabulary of the properties\<close>

text \<open>One mail for each configured recipient, in the order of the list, all with the
  same sender, subject and body.\<close>

definition one_per_recipient :: "'n config \<Rightarrow> jsstring \<Rightarrow> jsstring \<Rightarrow> mail list" where
  "one_per_recipient cfg subject body =
     map (\<lambda>admin. \<lparr> mail_from = EMAIL_FROM cfg, mail_to = admin,
                     mail_subject = subject, mail_text = body \<rparr>) (EMAIL_TO cfg)"

text \<open>What a call of the handler left behind: the entry of a key, the mails handed to
  the transport, the lines on the console. A call that threw left none of them.\<close>

definition cache_after :: "js_error + AppLogger \<times> delivery \<Rightarrow> jsstring \<Rightarrow> ErrorCacheEntry option" where
  "cache_after r key = (case r of Inl e \<Rightarrow> None | Inr (this', d) \<Rightarrow> dailyErrorCache this' key)"

definition sent_by :: "js_error + AppLogger \<times> delivery \<Rightarrow> mail list" where
  "sent_by r = (case r of Inl e \<Rightarrow> [] | Inr (this', d) \<Rightarrow> sent d)"

definition console_by :: "js_error + AppLogger \<times> delivery \<Rightarrow> (jsstring \<times> jsstring) list" where
  "console_by r = (case r of Inl e \<Rightarrow> [] | Inr (this', d) \<Rightarrow> console_error d)"

text \<open>The subjects of all mails of a run, in order.\<close>

definition subjects_sent :: "(js_error + delivery) list \<Rightarrow> jsstring list" where
  "subjects_sent out =
     concat (map (\<lambda>r. case r of Inl e \<Rightarrow> [] | Inr d \<Rightarrow> map mail_subject (sent d)) out)"

text \<open>What it means for a string to match a pattern, without reference to the way
  the test computes it.\<close>

inductive matches :: "regex \<Rightarrow> jsstring \<Rightarrow> bool" where
  empty: "matches Empty []"
| unit: "p c \<Longrightarrow> matches (Class p) [c]"
| left: "matches r w \<Longrightarrow> matches (Alt r s) w"
| right: "matches s w \<Longrightarrow> matches (Alt r s) w"
| both: "matches r u \<Longrightarrow> matches s v \<Longrightarrow> matches (Seq r s) (u @ v)"
| none: "matches (Star r) []"
| more: "matches r u \<Longrightarrow> matches (Star r) v \<Longrightarrow> matches (Star r) (u @ v)"

inductive_cases matches_NeverE: "matches Never w"
inductive_cases matches_EmptyE: "matches Empty w"
inductive_cases matches_ClassE: "matches (Class p) w"
inductive_cases matches_AltE: "matches (Alt r s) w"
inductive_cases matches_SeqE: "matches (Seq r s) w"

text \<open>The subject that reports a count, and the number a string of digits stands for.\<close>

definition counted_subject :: "AppLogger \<Rightarrow> nat \<Rightarrow> jsstring" where
  "counted_subject this n =
     name this @ js '' Error ('' @ decimal n @ js '' occurrences in past ''
       @ decimal (dailyErrorCacheTimeMinutes this) @ js '' minutes)''"

definition digits_value :: "jsstring \<Rightarrow> nat" where
  "digits_value ds = foldl (\<lambda>a c. 10 * a + unat (c - 0x30)) 0 ds"


text \<open>The strings of the shape \<open>local@domain.tld\<close>: three parts that are not empty and
  contain neither white space nor \<open>@\<close>.\<close>

definition shaped :: "jsstring \<Rightarrow> bool" where
  "shaped s =
     (\<exists>local domain tld. s = local @ [0x40] @ domain @ [0x2E] @ tld
        \<and> local \<noteq> [] \<and> domain \<noteq> [] \<and> tld \<noteq> []
        \<and> (\<forall>c \<in> set (local @ domain @ tld). \<not> is_space c \<and> c \<noteq> 0x40))"

text \<open>
  A syntactically valid address, independent of the pattern of the code: the
  \<open>Mailbox\<close> of RFC 5321 without quoted local parts and address literals. The local part
  is a dot-string, atoms of \<open>atext\<close> characters separated by single dots; the domain is
  a list of labels separated by single dots, each of letters, digits and hyphens,
  beginning and ending with a letter or a digit.
\<close>

definition let_dig :: "16 word \<Rightarrow> bool" where
  "let_dig c = ((0x41 \<le> c \<and> c \<le> 0x5A) \<or> (0x61 \<le> c \<and> c \<le> 0x7A) \<or> (0x30 \<le> c \<and> c \<le> 0x39))"

definition atext :: "16 word \<Rightarrow> bool" where
  "atext c = (let_dig c \<or> c \<in> set
     [0x21, 0x23, 0x24, 0x25, 0x26, 0x27, 0x2A, 0x2B, 0x2D, 0x2F, 0x3D, 0x3F,
      0x5E, 0x5F, 0x60, 0x7B, 0x7C, 0x7D, 0x7E])"

definition atom :: "jsstring \<Rightarrow> bool" where
  "atom a = (a \<noteq> [] \<and> list_all atext a)"

definition sub_domain :: "jsstring \<Rightarrow> bool" where
  "sub_domain l =
     (l \<noteq> [] \<and> list_all (\<lambda>c. let_dig c \<or> c = 0x2D) l \<and> let_dig (hd l) \<and> let_dig (last l))"

definition valid_address :: "jsstring \<Rightarrow> bool" where
  "valid_address s =
     (case split_on 0x40 s of
        [local, domain] \<Rightarrow>
          list_all atom (split_on 0x2E local) \<and> list_all sub_domain (split_on 0x2E domain)
      | _ \<Rightarrow> False)"

text \<open>
  The stores that calls of the handler build: every key of the map refers to an
  allocated object, and no two keys refer to the same object.
\<close>

definition sound :: "store \<Rightarrow> bool" where
  "sound st =
     ((\<forall>key a. slots st key = Some a \<longrightarrow> a < allocated st)
      \<and> (\<forall>key key' a. slots st key = Some a \<longrightarrow> slots st key' = Some a \<longrightarrow> key = key'))"

text \<open>
  The next \<open>n\<close> turns of the process are forced: \<open>n\<close> turns are possible, every sequence
  of at most \<open>n\<close> turns consists of statements of the running call, and every sequence
  of \<open>n\<close> turns ends in a state with \<open>Q\<close>.
\<close>

definition solo ::
  "host \<Rightarrow> 'n config \<Rightarrow> AppLogger \<Rightarrow> nat \<Rightarrow> machine \<Rightarrow> (machine \<Rightarrow> bool) \<Rightarrow> bool" where
  "solo h cfg this n m Q =
     ((\<exists>ls m'. turns h cfg this m ls m' \<and> length ls = n)
      \<and> (\<forall>ls m'. turns h cfg this m ls m' \<and> length ls \<le> n \<longrightarrow>
            (\<forall>l \<in> set ls. \<exists>pt. l = Statement pt) \<and> (length ls = n \<longrightarrow> Q m')))"

inductive_cases turns_NilE: "turns h cfg this m [] m'"
inductive_cases turns_ConsE: "turns h cfg this m (l # ls) m'"

section \<open>Basic facts\<close>

lemma entry_reset:
  "(e::ErrorCacheEntry)\<lparr> count := c, lastSent := t \<rparr> = \<lparr> count = c, lastSent = t \<rparr>"
  by (cases e) simp

lemma entry_bump:
  "(e::ErrorCacheEntry)\<lparr> count := c \<rparr> = \<lparr> count = c, lastSent = lastSent e \<rparr>"
  by (cases e) simp

lemma emailSubject_cache [simp]:
  "emailSubject (this\<lparr> dailyErrorCache := c \<rparr>) n = emailSubject this n"
  by (simp add: emailSubject_def dailyErrorCacheTimeMinutes_def)

lemma emailSubject_clear [simp]: "emailSubject (clear this) n = emailSubject this n"
  by (simp add: clear_def)

lemma get_or_new_stored [simp]:
  "get_or_new (this\<lparr> dailyErrorCache := c(s \<mapsto> e) \<rparr>) s = e"
  by (simp add: get_or_new_def)

lemma get_or_new_clear [simp]: "get_or_new (clear this) s = \<lparr> count = 0, lastSent = 0 \<rparr>"
  by (simp add: get_or_new_def clear_def)

subsection \<open>The loop over the recipients\<close>

lemma send_each_mails:
  "map fst (send_each transport sender subject body i admins) =
     map (\<lambda>admin. \<lparr> mail_from = sender, mail_to = admin,
                     mail_subject = subject, mail_text = body \<rparr>) admins"
  by (induction admins arbitrary: i) (simp_all add: Let_def)

lemma sent_dispatch: "sent (dispatch h cfg subject body) = one_per_recipient cfg subject body"
  by (simp add: dispatch_def one_per_recipient_def Let_def send_each_mails)




subsection \<open>The handler, case by case\<close>

text \<open>On a record that parses and has a key: the two branches of the source, with the
  stored entry written out.\<close>

lemma write_parsed:
  assumes "JSON_parse message = Inr parsed"
    and "cacheKey (Number_toString h) parsed = Inr s"
  shows "mailTransportInstance_write h cfg this now message =
     (if now - lastSent (get_or_new this s) > dailyErrorCacheTimeMs this
      then Inr (this\<lparr> dailyErrorCache := (dailyErrorCache this)(s \<mapsto> \<lparr> count = 0, lastSent = now \<rparr>) \<rparr>,
                dispatch h cfg (emailSubject this (count (get_or_new this s) + 1)) message)
      else Inr (this\<lparr> dailyErrorCache :=
                  (dailyErrorCache this)(s \<mapsto> \<lparr> count = count (get_or_new this s) + 1,
                                                 lastSent = lastSent (get_or_new this s) \<rparr>) \<rparr>,
                \<lparr> sent = [], console_error = [] \<rparr>))"
  using assms by (simp add: mailTransportInstance_write_def Let_def entry_reset entry_bump)

lemma write_unparsed:
  "JSON_parse message = Inl e \<Longrightarrow> mailTransportInstance_write h cfg this now message = Inl e"
  by (simp add: mailTransportInstance_write_def)

lemma write_no_key:
  "JSON_parse message = Inr parsed \<Longrightarrow> cacheKey (Number_toString h) parsed = Inl e
     \<Longrightarrow> mailTransportInstance_write h cfg this now message = Inl e"
  by (simp add: mailTransportInstance_write_def)


lemma cacheKey_null: "cacheKey n2s JNull = Inl TypeError"
  by (simp add: cacheKey_def get_property_def)

text \<open>Records that arrive while the window of the last send is open are only counted.\<close>

lemma writes_absorbed:
  assumes "\<forall>(t, m) \<in> set events.
             (\<exists>p. JSON_parse m = Inr p \<and> cacheKey (Number_toString h) p = Inr s)
             \<and> t - sentAt \<le> dailyErrorCacheTimeMs this"
    and "dailyErrorCache this s = Some \<lparr> count = c, lastSent = sentAt \<rparr>"
  shows "writes h cfg this events =
     (this\<lparr> dailyErrorCache :=
         (dailyErrorCache this)(s \<mapsto> \<lparr> count = c + length events, lastSent = sentAt \<rparr>) \<rparr>,
      replicate (length events) (Inr \<lparr> sent = [], console_error = [] \<rparr>))"
  using assms
proof (induction events arbitrary: this c)
  case Nil
  then show ?case by (simp add: map_upd_triv)
next
  case (Cons ev events)
  obtain t m where ev: "ev = (t, m)" by (cases ev)
  from Cons.prems(1) ev obtain p where
    p: "JSON_parse m = Inr p" "cacheKey (Number_toString h) p = Inr s"
    and t: "t - sentAt \<le> dailyErrorCacheTimeMs this"
    by auto
  let ?next = "this\<lparr> dailyErrorCache :=
      (dailyErrorCache this)(s \<mapsto> \<lparr> count = Suc c, lastSent = sentAt \<rparr>) \<rparr>"
  have found: "get_or_new this s = \<lparr> count = c, lastSent = sentAt \<rparr>"
    using Cons.prems(2) by (simp add: get_or_new_def)
  have step: "mailTransportInstance_write h cfg this t m
      = Inr (?next, \<lparr> sent = [], console_error = [] \<rparr>)"
    using t by (simp add: write_parsed [OF p] found)
  have rest: "\<forall>(t, m) \<in> set events.
             (\<exists>p. JSON_parse m = Inr p \<and> cacheKey (Number_toString h) p = Inr s)
             \<and> t - sentAt \<le> dailyErrorCacheTimeMs ?next"
    using Cons.prems(1) by simp
  have stored: "dailyErrorCache ?next s = Some \<lparr> count = Suc c, lastSent = sentAt \<rparr>"
    by simp
  have run_rest: "writes h cfg ?next events =
     (this\<lparr> dailyErrorCache :=
         (dailyErrorCache this)(s \<mapsto> \<lparr> count = Suc c + length events, lastSent = sentAt \<rparr>) \<rparr>,
      replicate (length events) (Inr \<lparr> sent = [], console_error = [] \<rparr>))"
  proof -
    have eq: "?next\<lparr> dailyErrorCache :=
         (dailyErrorCache ?next)(s \<mapsto> \<lparr> count = Suc c + length events, lastSent = sentAt \<rparr>) \<rparr>
       = this\<lparr> dailyErrorCache :=
         (dailyErrorCache this)(s \<mapsto> \<lparr> count = Suc c + length events, lastSent = sentAt \<rparr>) \<rparr>"
      by simp
    show ?thesis
      unfolding Cons.IH [OF rest stored] eq ..
  qed
  have len: "c + Suc (length events) = Suc c + length events"
    by simp
  have "writes h cfg this (ev # events) =
      (case writes h cfg ?next events of
         (final, out) \<Rightarrow> (final, Inr \<lparr> sent = [], console_error = [] \<rparr> # out))"
    by (simp only: ev writes.simps step sum.case prod.case Let_def)
  also have "\<dots> =
     (this\<lparr> dailyErrorCache :=
         (dailyErrorCache this)(s \<mapsto> \<lparr> count = Suc c + length events, lastSent = sentAt \<rparr>) \<rparr>,
      Inr \<lparr> sent = [], console_error = [] \<rparr>
        # replicate (length events) (Inr \<lparr> sent = [], console_error = [] \<rparr>))"
    by (simp only: run_rest prod.case)
  finally have run: "writes h cfg this (ev # events) =
     (this\<lparr> dailyErrorCache :=
         (dailyErrorCache this)(s \<mapsto> \<lparr> count = Suc c + length events, lastSent = sentAt \<rparr>) \<rparr>,
      Inr \<lparr> sent = [], console_error = [] \<rparr>
        # replicate (length events) (Inr \<lparr> sent = [], console_error = [] \<rparr>))" .
  show ?case
    unfolding length_Cons replicate_Suc len by (rule run)
qed

subsection \<open>The pattern of an address\<close>

text \<open>The test by derivatives decides the matching relation; the pattern of the source
  accepts exactly the strings \<open>a@b.c\<close> whose three parts are not empty and hold neither
  white space nor \<open>@\<close>.\<close>

lemma nullable_matches: "nullable r \<longleftrightarrow> matches r []"
proof (induction r)
  case (Seq r s)
  then show ?case
    by (auto elim!: matches_SeqE intro: matches.both [of r "[]" s "[]", simplified])
qed (auto intro: matches.intros elim: matches_NeverE matches_EmptyE matches_ClassE matches_AltE)

lemma star_step:
  assumes "matches x w'" and "x = Star r" and "w' = c # w"
  shows "\<exists>u v. w = u @ v \<and> matches r (c # u) \<and> matches (Star r) v"
  using assms
proof (induction arbitrary: w rule: matches.induct)
  case (more r' u v)
  show ?case
  proof (cases u)
    case Nil
    with more.IH(2) more.prems show ?thesis by simp
  next
    case (Cons a u')
    with more.prems have "a = c" "w = u' @ v" "r' = r" by simp_all
    with more.hyps Cons show ?thesis by blast
  qed
qed simp_all

lemma deriv_matches: "matches (deriv c r) w \<longleftrightarrow> matches r (c # w)"
proof (induction r arbitrary: w)
  case Never
  then show ?case by (auto elim: matches_NeverE)
next
  case Empty
  then show ?case by (auto elim: matches_NeverE matches_EmptyE)
next
  case (Class p)
  then show ?case
    by (auto elim: matches_NeverE matches_EmptyE matches_ClassE intro: matches.intros split: if_splits)
next
  case (Alt r s)
  then show ?case by (auto elim!: matches_AltE intro: matches.intros)
next
  case (Seq r s)
  show ?case
  proof
    assume "matches (deriv c (Seq r s)) w"
    then consider (l) u v where "w = u @ v" "matches (deriv c r) u" "matches s v"
      | (r) "nullable r" "matches (deriv c s) w"
      by (auto elim!: matches_AltE matches_SeqE split: if_splits)
    then show "matches (Seq r s) (c # w)"
    proof cases
      case l
      then have "matches (Seq r s) ((c # u) @ v)"
        using Seq.IH(1) by (intro matches.both) simp_all
      with l show ?thesis by simp
    next
      case r
      then have "matches (Seq r s) ([] @ (c # w))"
        using Seq.IH(2) nullable_matches by (intro matches.both) simp_all
      then show ?thesis by simp
    qed
  next
    assume "matches (Seq r s) (c # w)"
    then obtain u v where uv: "c # w = u @ v" "matches r u" "matches s v"
      by (auto elim: matches_SeqE)
    show "matches (deriv c (Seq r s)) w"
    proof (cases u)
      case Nil
      with uv have "nullable r" "matches (deriv c s) w"
        using Seq.IH(2) nullable_matches by simp_all
      then show ?thesis by (simp add: matches.right)
    next
      case (Cons a u')
      with uv have "matches (deriv c r) u'" "w = u' @ v"
        using Seq.IH(1) by simp_all
      with uv(3) have "matches (Seq (deriv c r) s) w"
        by (auto intro: matches.both)
      then show ?thesis by (simp add: matches.left)
    qed
  qed
next
  case (Star r)
  show ?case
  proof
    assume "matches (deriv c (Star r)) w"
    then obtain u v where "w = u @ v" "matches (deriv c r) u" "matches (Star r) v"
      by (auto elim: matches_SeqE)
    then have "matches (Star r) ((c # u) @ v)"
      using Star.IH by (intro matches.more) simp_all
    with \<open>w = u @ v\<close> show "matches (Star r) (c # w)" by simp
  next
    assume "matches (Star r) (c # w)"
    from star_step [OF this refl refl] obtain u v where
      "w = u @ v" "matches r (c # u)" "matches (Star r) v"
      by blast
    then show "matches (deriv c (Star r)) w"
      using Star.IH by (auto intro: matches.both)
  qed
qed

lemma regex_test_matches: "regex_test r s \<longleftrightarrow> matches r s"
  unfolding regex_test_def
  by (induction s arbitrary: r) (simp_all add: nullable_matches deriv_matches)

lemma star_class_only:
  assumes "matches x w" and "x = Star (Class p)"
  shows "\<forall>c \<in> set w. p c"
  using assms
  by (induction rule: matches.induct) (auto elim: matches_ClassE)

lemma star_class: "matches (Star (Class p)) w \<longleftrightarrow> (\<forall>c \<in> set w. p c)"
proof
  assume "matches (Star (Class p)) w"
  then show "\<forall>c \<in> set w. p c" by (rule star_class_only) simp
next
  assume "\<forall>c \<in> set w. p c"
  then show "matches (Star (Class p)) w"
  proof (induction w)
    case Nil
    show ?case by (rule matches.none)
  next
    case (Cons c w)
    then have "matches (Star (Class p)) ([c] @ w)"
      by (intro matches.more matches.unit) simp_all
    then show ?case by simp
  qed
qed

lemma plus_class: "matches (Plus (Class p)) w \<longleftrightarrow> w \<noteq> [] \<and> (\<forall>c \<in> set w. p c)"
proof
  assume "matches (Plus (Class p)) w"
  then show "w \<noteq> [] \<and> (\<forall>c \<in> set w. p c)"
    unfolding Plus_def by (auto elim!: matches_SeqE matches_ClassE simp add: star_class)
next
  assume a: "w \<noteq> [] \<and> (\<forall>c \<in> set w. p c)"
  then obtain c w' where w: "w = c # w'" by (cases w) auto
  with a have "matches (Seq (Class p) (Star (Class p))) ([c] @ w')"
    by (intro matches.both matches.unit) (simp_all add: star_class)
  with w show "matches (Plus (Class p)) w"
    by (simp add: Plus_def)
qed

lemma email_pattern_accepts:
  "regex_test email_pattern s \<longleftrightarrow>
     (\<exists>a b c. s = a @ [0x40] @ b @ [0x2E] @ c \<and> a \<noteq> [] \<and> b \<noteq> [] \<and> c \<noteq> []
        \<and> (\<forall>x \<in> set (a @ b @ c). \<not> is_space x \<and> x \<noteq> 0x40))"
proof
  assume "regex_test email_pattern s"
  then have "matches email_pattern s" by (simp add: regex_test_matches)
  then show "\<exists>a b c. s = a @ [0x40] @ b @ [0x2E] @ c \<and> a \<noteq> [] \<and> b \<noteq> [] \<and> c \<noteq> []
        \<and> (\<forall>x \<in> set (a @ b @ c). \<not> is_space x \<and> x \<noteq> 0x40)"
    unfolding email_pattern_def Let_def
    by (elim matches_SeqE matches_ClassE) (fastforce simp add: plus_class)
next
  assume "\<exists>a b c. s = a @ [0x40] @ b @ [0x2E] @ c \<and> a \<noteq> [] \<and> b \<noteq> [] \<and> c \<noteq> []
        \<and> (\<forall>x \<in> set (a @ b @ c). \<not> is_space x \<and> x \<noteq> 0x40)"
  then obtain a b c where s: "s = a @ [0x40] @ b @ [0x2E] @ c"
    and ne: "a \<noteq> []" "b \<noteq> []" "c \<noteq> []"
    and ok: "\<forall>x \<in> set (a @ b @ c). \<not> is_space x \<and> x \<noteq> 0x40"
    by blast
  let ?part = "Plus (Class (\<lambda>c. \<not> is_space c \<and> c \<noteq> 0x40))"
  from ne ok have parts: "matches ?part a" "matches ?part b" "matches ?part c"
    by (simp_all add: plus_class)
  have "matches (Seq ?part (Seq (Class (\<lambda>c. c = 0x40)) (Seq ?part (Seq (Class (\<lambda>c. c = 0x2E)) ?part))))
      (a @ [0x40] @ b @ [0x2E] @ c)"
    by (intro matches.both matches.unit parts) simp_all
  with s show "regex_test email_pattern s"
    by (simp add: regex_test_matches email_pattern_def Let_def)
qed

subsection \<open>The configuration\<close>

lemma split_on_nonempty: "split_on sep s \<noteq> []"
  by (induction s) (auto split: list.splits)

lemma transform_fails:
  "\<exists>entry \<in> set (map trim (split_on 0x2C str)). \<not> regex_test email_pattern entry
     \<Longrightarrow> \<exists>e. EMAIL_TO_transform str = Inl e"
  by (auto simp add: EMAIL_TO_transform_def Let_def list_all_iff)

lemma transform_succeeds:
  "EMAIL_TO_transform str = Inr emails
     \<Longrightarrow> emails = map trim (split_on 0x2C str) \<and> emails \<noteq> []
         \<and> (\<forall>a \<in> set emails. regex_test email_pattern a)"
  by (auto simp add: EMAIL_TO_transform_def Let_def list_all_iff split_on_nonempty split: if_splits)

lemma config_succeeds:
  assumes "config z env = Inr cfg"
  shows "\<exists>str. env_EMAIL_TO env = Some str \<and> EMAIL_TO_transform str = Inr (EMAIL_TO cfg)"
  using assms
  by (auto simp add: config_def split: option.splits sum.splits if_splits)

subsection \<open>The examples\<close>

lemma disk_full_parsed: "JSON_parse disk_full = Inr disk_full_record"
  by code_simp

lemma disk_full_signature: "cacheKey (\<lambda>l. l) disk_full_record = Inr disk_full_key"
  by code_simp

lemma disk_full_example_key:
  "cacheKey (Number_toString example_host) disk_full_record = Inr disk_full_key"
  by (simp add: example_host_def disk_full_signature)


lemmas write_disk_full = write_parsed [OF disk_full_parsed disk_full_example_key]

lemma not_json: "JSON_parse (js ''not json'') = Inl SyntaxError"
  by code_simp

lemma forty_two: "JSON_parse (js ''42'') = Inr (JNum (js ''42''))"
  by code_simp

lemma null_text: "JSON_parse (js ''null'') = Inr JNull"
  by code_simp

lemma minute_subject:
  "emailSubject minute_logger n
     = js ''app Error ('' @ decimal n @ js '' occurrences in past 1 minutes)''"
  by (simp add: emailSubject_def minute_logger_def example_options_def AppLogger_new_def
      dailyErrorCacheTimeMinutes_def decimal.simps js_def)

lemma minute_window [simp]: "dailyErrorCacheTimeMs minute_logger = 60000"
  by (simp add: minute_logger_def example_options_def AppLogger_new_def)

lemma minute_cache [simp]: "dailyErrorCache minute_logger = Map.empty"
  by (simp add: minute_logger_def AppLogger_new_def)

lemma unbatched_window [simp]: "dailyErrorCacheTimeMs unbatched_logger = 0"
  by (simp add: unbatched_logger_def AppLogger_new_def)

lemma example_recipients [simp]: "EMAIL_TO example_config = [js ''ops@example.com'']"
  by (simp add: example_config_def)

lemma seen_window [simp]: "dailyErrorCacheTimeMs seen_logger = 60000"
  by (simp add: seen_logger_def)

lemma seen_entry [simp]:
  "get_or_new seen_logger disk_full_key = \<lparr> count = 2, lastSent = 90000 \<rparr>"
  by (simp add: seen_logger_def get_or_new_def)

lemma seen_subject [simp]: "emailSubject seen_logger n = emailSubject minute_logger n"
  by (simp add: seen_logger_def)

lemma just_sent_window [simp]: "dailyErrorCacheTimeMs just_sent_logger = 0"
  by (simp add: just_sent_logger_def)

lemma just_sent_entry [simp]:
  "get_or_new just_sent_logger disk_full_key = \<lparr> count = 0, lastSent = 1000 \<rparr>"
  by (simp add: just_sent_logger_def get_or_new_def)

lemma just_sent_name [simp]: "name just_sent_logger = js ''app''"
  by (simp add: just_sent_logger_def unbatched_logger_def AppLogger_new_def)

lemma example_env_parsed:
  "config example_zod example_env =
     Inr \<lparr> EMAIL_TO = [js ''ops@example.com'', js ''dev@example.com''],
           EMAIL_FROM = js ''logger@example.com'',
           EMAIL_HOST = js ''smtp.example.com'',
           EMAIL_PORT = 587,
           EMAIL_USER = js ''logger@example.com'',
           EMAIL_PASSWORD = js ''secret'' \<rparr>"
  by code_simp

lemma bad_entry: "\<not> regex_test email_pattern (js ''not-an-email'')"
  by code_simp

lemma bad_env_entries:
  "map trim (split_on 0x2C (js ''ops@example.com,not-an-email''))
     = [js ''ops@example.com'', js ''not-an-email'']"
  by code_simp

subsection \<open>The subject that reports a count\<close>

lemma digit_back: "d < 10 \<Longrightarrow> unat ((of_nat (48 + d) :: 16 word) - 0x30) = d"
proof -
  assume d: "d < 10"
  have "(of_nat (48 + d) :: 16 word) - 0x30 = of_nat d"
    by simp
  moreover have "unat (of_nat d :: 16 word) = d"
    using d by (simp add: unat_of_nat)
  ultimately show ?thesis by simp
qed

lemma digits_value_decimal: "digits_value (decimal n) = n"
proof (induction n rule: decimal.induct)
  case (1 n)
  show ?case
  proof (cases "n < 10")
    case True
    then show ?thesis
      using digit_back [OF True] by (subst decimal.simps) (simp add: digits_value_def)
  next
    case False
    have m: "n mod 10 < 10" by simp
    from False 1 have "digits_value (decimal (n div 10)) = n div 10" by simp
    with False show ?thesis
      using digit_back [OF m] by (subst decimal.simps) (simp add: digits_value_def)
  qed
qed

lemma decimal_inj: "decimal n = decimal m \<Longrightarrow> n = m"
  by (metis digits_value_decimal)

lemma counted_subject_inj: "counted_subject this n = counted_subject this m \<Longrightarrow> n = m"
  by (simp add: counted_subject_def decimal_inj)

lemma emailSubject_counted:
  "0 < dailyErrorCacheTimeMs this \<Longrightarrow> emailSubject this n = counted_subject this n"
  by (simp add: emailSubject_def counted_subject_def)

lemma emailSubject_plain:
  "dailyErrorCacheTimeMs this = 0 \<Longrightarrow> emailSubject this n = name this @ js '' Error''"
  by (simp add: emailSubject_def)

subsection \<open>The entry a call finds\<close>

lemma get_or_new_lookup:
  "entry = (case dailyErrorCache this s of Some stored \<Rightarrow> stored | None \<Rightarrow> \<lparr> count = 0, lastSent = 0 \<rparr>)
     \<Longrightarrow> get_or_new this s = entry"
  by (simp add: get_or_new_def)

lemma seen_stored [simp]:
  "dailyErrorCache seen_logger disk_full_key = Some \<lparr> count = 2, lastSent = 90000 \<rparr>"
  by (simp add: seen_logger_def)

lemma just_sent_stored [simp]:
  "dailyErrorCache just_sent_logger disk_full_key = Some \<lparr> count = 0, lastSent = 1000 \<rparr>"
  by (simp add: just_sent_logger_def)

lemma unbatched_cache [simp]: "dailyErrorCache unbatched_logger = Map.empty"
  by (simp add: unbatched_logger_def AppLogger_new_def)

lemma unbatched_name [simp]: "name unbatched_logger = js ''app''"
  by (simp add: unbatched_logger_def AppLogger_new_def)

lemma minute_counted:
  "counted_subject minute_logger n
     = js ''app Error ('' @ decimal n @ js '' occurrences in past 1 minutes)''"
  by (simp add: counted_subject_def minute_logger_def example_options_def AppLogger_new_def
      dailyErrorCacheTimeMinutes_def decimal.simps js_def)

lemma seen_counted [simp]: "counted_subject seen_logger n = counted_subject minute_logger n"
  by (simp add: seen_logger_def counted_subject_def dailyErrorCacheTimeMinutes_def)

subsection \<open>Records without the fields, and addresses\<close>

lemma shaped_test: "regex_test email_pattern s \<longleftrightarrow> shaped s"
  unfolding shaped_def by (rule email_pattern_accepts)





lemma lenient_parsed:
  "config example_zod lenient_env =
     Inr \<lparr> EMAIL_TO = [js ''a@b..c''],
           EMAIL_FROM = js ''logger@example.com'',
           EMAIL_HOST = js ''smtp.example.com'',
           EMAIL_PORT = 587,
           EMAIL_USER = js ''logger@example.com'',
           EMAIL_PASSWORD = js ''secret'' \<rparr>"
  by code_simp

lemma double_dot_invalid: "\<not> valid_address (js ''a@b..c'')"
  by code_simp

lemma not_shaped: "\<not> shaped (js ''not-an-email'')"
  using bad_entry by (simp add: shaped_test)

subsection \<open>Forced turns\<close>

lemma turn_of_running:
  assumes "turn h cfg this m l m'" and "running m = Some f" and "\<not> finished (f_at f)"
  shows "l = Statement (f_at f) \<and> m' = statement h cfg this f m"
  using assms by (cases rule: turn.cases) (simp_all add: awaits_def)

lemma solo_done: "Q m \<Longrightarrow> solo h cfg this 0 m Q"
  by (auto simp add: solo_def intro: turns.stay elim: turns_NilE)

lemma solo_statement:
  assumes "running m = Some f" and "\<not> finished (f_at f)"
    and "solo h cfg this n (statement h cfg this f m) Q"
  shows "solo h cfg this (Suc n) m Q"
proof -
  have step: "turn h cfg this m (Statement (f_at f)) (statement h cfg this f m)"
    using assms(1,2) by (intro turn.run) (simp_all add: awaits_def)
  from assms(3) obtain ls m' where
    "turns h cfg this (statement h cfg this f m) ls m'" "length ls = n"
    by (auto simp add: solo_def)
  with step have "turns h cfg this m (Statement (f_at f) # ls) m'"
    "length (Statement (f_at f) # ls) = Suc n"
    by (auto intro: turns.go)
  then have some: "\<exists>ls m'. turns h cfg this m ls m' \<and> length ls = Suc n"
    by blast
  have all: "(\<forall>l \<in> set ls. \<exists>pt. l = Statement pt) \<and> (length ls = Suc n \<longrightarrow> Q m')"
    if "turns h cfg this m ls m'" "length ls \<le> Suc n" for ls m'
  proof (cases ls)
    case Nil
    then show ?thesis by simp
  next
    case (Cons l rest)
    with that(1) obtain m1 where
      first: "turn h cfg this m l m1" and more: "turns h cfg this m1 rest m'"
      by (auto elim: turns_ConsE)
    from turn_of_running [OF first assms(1,2)]
    have l: "l = Statement (f_at f)" and m1: "m1 = statement h cfg this f m"
      by simp_all
    from that(2) Cons have "length rest \<le> n" by simp
    with assms(3) more m1 have
      "(\<forall>l \<in> set rest. \<exists>pt. l = Statement pt) \<and> (length rest = n \<longrightarrow> Q m')"
      by (simp add: solo_def)
    with Cons l show ?thesis by simp
  qed
  from some all show ?thesis
    unfolding solo_def by blast
qed

lemma finished_simps [simp]:
  "\<not> finished L73" "\<not> finished L74" "\<not> finished L76" "\<not> finished L77" "\<not> finished L78"
  "\<not> finished L81" "\<not> finished L82" "\<not> finished (L86 i)" "\<not> finished L97" "\<not> finished L98"
  "\<not> finished L101" "\<not> finished L103" "finished Returned" "finished (Thrown e)"
  by (simp_all add: finished_def)

lemma solo_sends:
  assumes "running m = Some f" and "f_at f = L86 i" and "i \<le> length (EMAIL_TO cfg)"
    and "\<And>rs. solo h cfg this k
           (m\<lparr> running := Some (f\<lparr> f_at := L97 \<rparr>),
               handed := handed m @ drop i (one_per_recipient cfg (f_emailSubject f) (f_message f)),
               rejected := rs \<rparr>) Q"
  shows "solo h cfg this (length (EMAIL_TO cfg) - i + 1 + k) m Q"
  using assms
proof (induction "length (EMAIL_TO cfg) - i" arbitrary: i m f)
  case 0
  then have i: "i = length (EMAIL_TO cfg)" by simp
  have now: "statement h cfg this f m = m\<lparr> running := Some (f\<lparr> f_at := L97 \<rparr>) \<rparr>"
    using "0.prems"(2) i by (simp add: statement_def Let_def)
  have same: "m\<lparr> running := Some (f\<lparr> f_at := L97 \<rparr>),
               handed := handed m @ drop i (one_per_recipient cfg (f_emailSubject f) (f_message f)),
               rejected := rejected m \<rparr>
      = m\<lparr> running := Some (f\<lparr> f_at := L97 \<rparr>) \<rparr>"
    using i by (simp add: one_per_recipient_def)
  have "solo h cfg this (Suc k) m Q"
    using "0.prems"(1,2) "0.prems"(4) [of "rejected m"]
    by (intro solo_statement [where f = f]) (simp_all add: now same)
  with i show ?case by simp
next
  case (Suc d)
  then have i: "i < length (EMAIL_TO cfg)" by simp
  let ?letter = "\<lparr> mail_from = EMAIL_FROM cfg, mail_to = EMAIL_TO cfg ! i,
      mail_subject = f_emailSubject f, mail_text = f_message f \<rparr>"
  let ?f1 = "f\<lparr> f_at := L86 (Suc i) \<rparr>"
  let ?m1 = "m\<lparr> running := Some ?f1, handed := handed m @ [?letter],
      rejected := rejected m @
        (case sendMail h i ?letter of Fulfilled \<Rightarrow> [] | Rejected error \<Rightarrow> [error]) \<rparr>"
  have now: "statement h cfg this f m = ?m1"
    using Suc.prems(2) i by (simp add: statement_def Let_def)
  have split: "drop i (one_per_recipient cfg (f_emailSubject f) (f_message f))
      = ?letter # drop (Suc i) (one_per_recipient cfg (f_emailSubject f) (f_message f))"
    using i by (simp add: one_per_recipient_def Cons_nth_drop_Suc [symmetric])
  have cont: "solo h cfg this k
      (?m1\<lparr> running := Some (?f1\<lparr> f_at := L97 \<rparr>),
           handed := handed ?m1 @ drop (Suc i) (one_per_recipient cfg (f_emailSubject ?f1) (f_message ?f1)),
           rejected := rs \<rparr>) Q" for rs
    using Suc.prems(4) [of rs] by (simp add: split)
  have d: "d = length (EMAIL_TO cfg) - Suc i"
    using Suc.hyps(2) by simp
  have "solo h cfg this (length (EMAIL_TO cfg) - Suc i + 1 + k) ?m1 Q"
    using i by (intro Suc.hyps(1) [OF d, where f = ?f1] cont) simp_all
  then have "solo h cfg this (Suc (length (EMAIL_TO cfg) - Suc i + 1 + k)) m Q"
    using Suc.prems(1,2) by (intro solo_statement [where f = f]) (simp_all add: now)
  moreover have "Suc (length (EMAIL_TO cfg) - Suc i + 1 + k) = length (EMAIL_TO cfg) - i + 1 + k"
    using i by arith
  ultimately show ?case by (simp only:)
qed

lemma solo_decided:
  assumes "running m = Some f" and "f_at f = L81"
    and "f_now f - lastSent (objects (memory m) (f_cacheEntry f)) > dailyErrorCacheTimeMs this"
    and "\<And>rs. solo h cfg this k
           (m\<lparr> running := Some (f\<lparr> f_at := L103,
                    f_emailSubject := emailSubject this (count (objects (memory m) (f_cacheEntry f))) \<rparr>),
               memory := (memory m)
                 \<lparr> objects := (objects (memory m))(f_cacheEntry f := \<lparr> count = 0, lastSent = f_now f \<rparr>),
                   slots := (slots (memory m))(f_cacheKey f \<mapsto> f_cacheEntry f) \<rparr>,
               handed := handed m @ one_per_recipient cfg
                   (emailSubject this (count (objects (memory m) (f_cacheEntry f)))) (f_message f),
               rejected := rs \<rparr>) Q"
  shows "solo h cfg this (length (EMAIL_TO cfg) + 6 + k) m Q"
proof -
  let ?subject = "emailSubject this (count (objects (memory m) (f_cacheEntry f)))"
  let ?f2 = "f\<lparr> f_at := L86 0, f_emailSubject := ?subject \<rparr>"
  let ?m2 = "m\<lparr> running := Some ?f2 \<rparr>"
  have tail: "solo h cfg this (Suc (Suc (Suc k)))
      (?m2\<lparr> running := Some (?f2\<lparr> f_at := L97 \<rparr>),
           handed := handed ?m2 @ drop 0 (one_per_recipient cfg (f_emailSubject ?f2) (f_message ?f2)),
           rejected := rs \<rparr>) Q" for rs
    apply (rule solo_statement [where f = "?f2\<lparr> f_at := L97 \<rparr>"], simp, simp)
    apply (simp add: statement_def Let_def)
    apply (rule solo_statement [where f = "?f2\<lparr> f_at := L98 \<rparr>"], simp, simp)
    apply (simp add: statement_def Let_def)
    apply (rule solo_statement [where f = "?f2\<lparr> f_at := L101 \<rparr>"], simp, simp)
    apply (simp add: statement_def Let_def entry_reset)
    using assms(4) [of rs] apply (cases m, cases f, simp)
    done
  have loop: "solo h cfg this (length (EMAIL_TO cfg) - 0 + 1 + Suc (Suc (Suc k))) ?m2 Q"
    by (rule solo_sends [where f = ?f2, OF _ _ _ tail]) simp_all
  have head: "solo h cfg this (Suc (Suc K)) m Q" if "solo h cfg this K ?m2 Q" for K
    apply (rule solo_statement [where f = f])
    using assms(1,2,3) apply simp
    using assms(1,2,3) apply simp
    using assms(1,2,3) apply (simp add: statement_def Let_def)
    apply (rule solo_statement [where f = "f\<lparr> f_at := L82 \<rparr>"], simp, simp)
    apply (simp add: statement_def Let_def)
    using that apply simp
    done
  have "Suc (Suc (length (EMAIL_TO cfg) - 0 + 1 + Suc (Suc (Suc k)))) = length (EMAIL_TO cfg) + 6 + k"
    by simp
  with head [OF loop] show ?thesis by (simp only:)
qed

lemma contents_stored:
  assumes "sound st" and "slots st key = Some a"
  shows "contents (st\<lparr> objects := (objects st)(a := entry), slots := (slots st)(key \<mapsto> a) \<rparr>)
           = (contents st)(key \<mapsto> entry)"
    and "sound (st\<lparr> objects := (objects st)(a := entry), slots := (slots st)(key \<mapsto> a) \<rparr>)"
proof -
  have "map_option ((objects st)(a := entry)) (slots st x) = map_option (objects st) (slots st x)"
    if "x \<noteq> key" for x
  proof (cases "slots st x")
    case None
    then show ?thesis by simp
  next
    case (Some b)
    with assms that have "b \<noteq> a" by (auto simp add: sound_def)
    with Some show ?thesis by simp
  qed
  then show "contents (st\<lparr> objects := (objects st)(a := entry), slots := (slots st)(key \<mapsto> a) \<rparr>)
           = (contents st)(key \<mapsto> entry)"
    by (auto simp add: contents_def fun_eq_iff)
  show "sound (st\<lparr> objects := (objects st)(a := entry), slots := (slots st)(key \<mapsto> a) \<rparr>)"
    using assms by (auto simp add: sound_def)
qed

lemma contents_fresh:
  assumes "sound st"
  shows "contents (st\<lparr> allocated := Suc (allocated st),
                       objects := (objects st)(allocated st := entry),
                       slots := (slots st)(key \<mapsto> allocated st) \<rparr>)
           = (contents st)(key \<mapsto> entry)"
    and "sound (st\<lparr> allocated := Suc (allocated st),
                     objects := (objects st)(allocated st := entry),
                     slots := (slots st)(key \<mapsto> allocated st) \<rparr>)"
proof -
  have "map_option ((objects st)(allocated st := entry)) (slots st x) = map_option (objects st) (slots st x)"
    for x
  proof (cases "slots st x")
    case None
    then show ?thesis by simp
  next
    case (Some b)
    with assms have "b < allocated st" by (auto simp add: sound_def)
    with Some show ?thesis by simp
  qed
  then show "contents (st\<lparr> allocated := Suc (allocated st),
                       objects := (objects st)(allocated st := entry),
                       slots := (slots st)(key \<mapsto> allocated st) \<rparr>)
           = (contents st)(key \<mapsto> entry)"
    by (auto simp add: contents_def fun_eq_iff)
  have "b \<noteq> allocated st" if "slots st x = Some b" for x b
    using assms that by (auto simp add: sound_def)
  then show "sound (st\<lparr> allocated := Suc (allocated st),
                     objects := (objects st)(allocated st := entry),
                     slots := (slots st)(key \<mapsto> allocated st) \<rparr>)"
    using assms by (auto simp add: sound_def less_Suc_eq)
qed

lemma solo_next:
  assumes "running m = Some f" and "\<not> finished (f_at f)"
    and "statement h cfg this f m = m1" and "solo h cfg this n m1 Q"
  shows "solo h cfg this (Suc n) m Q"
  using assms(4) unfolding assms(3) [symmetric] by (rule solo_statement [OF assms(1,2)])

lemma call_sends:
  assumes "sound (memory m)" and "running m = Some (enter now message)"
    and "JSON_parse message = Inr parsed"
    and "cacheKey (Number_toString h) parsed = Inr s"
    and "entry = (case contents (memory m) s of
                    Some stored \<Rightarrow> stored | None \<Rightarrow> \<lparr> count = 0, lastSent = 0 \<rparr>)"
    and "now - lastSent entry > dailyErrorCacheTimeMs this"
  shows "solo h cfg this (length (EMAIL_TO cfg) + 11) m
           (\<lambda>m'. contents (memory m') = (contents (memory m))(s \<mapsto> \<lparr> count = 0, lastSent = now \<rparr>)
                \<and> sound (memory m')
                \<and> handed m' = handed m @ one_per_recipient cfg (emailSubject this (count entry + 1)) message
                \<and> inbox m' = inbox m \<and> writing m' = writing m \<and> awaiting m' = awaiting m
                \<and> console m' = console m
                \<and> (\<exists>f'. running m' = Some f' \<and> f_at f' = L103))"
    (is "solo h cfg this _ m ?Q")
proof -
  let ?f1 = "(enter now message)\<lparr> f_at := L74, f_parsedMessage := parsed \<rparr>"
  let ?f2 = "?f1\<lparr> f_at := L76, f_cacheKey := s \<rparr>"
  let ?f3 = "?f2\<lparr> f_at := L77, f_now := now \<rparr>"
  let ?m1 = "m\<lparr> running := Some ?f1 \<rparr>"
  let ?m2 = "m\<lparr> running := Some ?f2 \<rparr>"
  let ?m3 = "m\<lparr> running := Some ?f3 \<rparr>"
  note eqs = machine.equality store.equality activation.equality
  have at: "f_at (enter now message) = L73" "f_message (enter now message) = message"
    "f_clock (enter now message) = now"
    by (simp_all add: enter_def)
  have decided: "solo h cfg this (Suc (Suc (length (EMAIL_TO cfg) + 6 + 0))) ?m3 ?Q"
  proof (cases "slots (memory m) s")
    case None
    let ?a = "allocated (memory m)"
    let ?f4 = "?f3\<lparr> f_at := L78, f_cacheEntry := ?a \<rparr>"
    let ?m4 = "m\<lparr> running := Some ?f4,
        memory := (memory m)\<lparr> objects := (objects (memory m))(?a := \<lparr> count = 0, lastSent = 0 \<rparr>),
                               allocated := Suc ?a \<rparr> \<rparr>"
    let ?f5 = "?f4\<lparr> f_at := L81 \<rparr>"
    let ?m5 = "m\<lparr> running := Some ?f5,
        memory := (memory m)\<lparr> objects := (objects (memory m))(?a := \<lparr> count = 1, lastSent = 0 \<rparr>),
                               allocated := Suc ?a \<rparr> \<rparr>"
    from None assms(5) have entry: "entry = \<lparr> count = 0, lastSent = 0 \<rparr>"
      by (simp add: contents_def)
    have s5: "solo h cfg this (length (EMAIL_TO cfg) + 6 + 0) ?m5 ?Q"
      apply (rule solo_decided [where f = ?f5])
         apply simp
        apply simp
      using assms(6) entry apply simp
      apply (rule solo_done)
      using contents_fresh [OF assms(1), where entry = "\<lparr> count = 0, lastSent = now \<rparr>" and key = s] entry
      apply (simp add: at)
      done
    have s4: "solo h cfg this (Suc (length (EMAIL_TO cfg) + 6 + 0)) ?m4 ?Q"
      by (rule solo_next [where f = ?f4, OF _ _ _ s5])
        (auto simp add: statement_def Let_def intro!: eqs)
    show ?thesis
      using None by (intro solo_next [where f = ?f3, OF _ _ _ s4])
        (auto simp add: statement_def Let_def intro!: eqs)
  next
    case (Some a)
    let ?f4 = "?f3\<lparr> f_at := L78, f_cacheEntry := a \<rparr>"
    let ?m4 = "m\<lparr> running := Some ?f4 \<rparr>"
    let ?f5 = "?f4\<lparr> f_at := L81 \<rparr>"
    let ?m5 = "m\<lparr> running := Some ?f5,
        memory := (memory m)\<lparr> objects := (objects (memory m))
            (a := (objects (memory m) a)\<lparr> count := count (objects (memory m) a) + 1 \<rparr>) \<rparr> \<rparr>"
    from Some assms(5) have entry: "entry = objects (memory m) a"
      by (simp add: contents_def)
    have s5: "solo h cfg this (length (EMAIL_TO cfg) + 6 + 0) ?m5 ?Q"
      apply (rule solo_decided [where f = ?f5])
         apply simp
        apply simp
      using assms(6) entry apply simp
      apply (rule solo_done)
      using contents_stored [OF assms(1) Some, where entry = "\<lparr> count = 0, lastSent = now \<rparr>"] entry
      apply (simp add: at)
      done
    have s4: "solo h cfg this (Suc (length (EMAIL_TO cfg) + 6 + 0)) ?m4 ?Q"
      by (rule solo_next [where f = ?f4, OF _ _ _ s5])
        (auto simp add: statement_def Let_def intro!: eqs)
    show ?thesis
      using Some by (intro solo_next [where f = ?f3, OF _ _ _ s4])
        (auto simp add: statement_def Let_def intro!: eqs)
  qed
  have s2: "solo h cfg this (Suc (Suc (Suc (length (EMAIL_TO cfg) + 6 + 0)))) ?m2 ?Q"
    by (rule solo_next [where f = ?f2, OF _ _ _ decided])
      (auto simp add: statement_def Let_def at intro!: eqs)
  have s1: "solo h cfg this (Suc (Suc (Suc (Suc (length (EMAIL_TO cfg) + 6 + 0))))) ?m1 ?Q"
    by (rule solo_next [where f = ?f1, OF _ _ _ s2])
      (auto simp add: statement_def Let_def assms(4) intro!: eqs)
  have s0: "solo h cfg this (Suc (Suc (Suc (Suc (Suc (length (EMAIL_TO cfg) + 6 + 0)))))) m ?Q"
    using assms(2) by (intro solo_next [where f = "enter now message", OF _ _ _ s1])
      (auto simp add: statement_def Let_def at assms(3) intro!: eqs)
  have "Suc (Suc (Suc (Suc (Suc (length (EMAIL_TO cfg) + 6 + 0))))) = length (EMAIL_TO cfg) + 11"
    by simp
  with s0 show ?thesis by (simp only:)
qed

lemma call_absorbs:
  assumes "sound (memory m)" and "running m = Some (enter now message)"
    and "JSON_parse message = Inr parsed"
    and "cacheKey (Number_toString h) parsed = Inr s"
    and "entry = (case contents (memory m) s of
                    Some stored \<Rightarrow> stored | None \<Rightarrow> \<lparr> count = 0, lastSent = 0 \<rparr>)"
    and "\<not> now - lastSent entry > dailyErrorCacheTimeMs this"
  shows "solo h cfg this 7 m
           (\<lambda>m'. contents (memory m') =
                    (contents (memory m))(s \<mapsto> \<lparr> count = count entry + 1, lastSent = lastSent entry \<rparr>)
                \<and> sound (memory m')
                \<and> handed m' = handed m
                \<and> inbox m' = inbox m \<and> writing m' = writing m \<and> awaiting m' = awaiting m
                \<and> console m' = console m \<and> rejected m' = rejected m
                \<and> (\<exists>f'. running m' = Some f' \<and> f_at f' = L103))"
    (is "solo h cfg this _ m ?Q")
proof -
  let ?f1 = "(enter now message)\<lparr> f_at := L74, f_parsedMessage := parsed \<rparr>"
  let ?f2 = "?f1\<lparr> f_at := L76, f_cacheKey := s \<rparr>"
  let ?f3 = "?f2\<lparr> f_at := L77, f_now := now \<rparr>"
  let ?m1 = "m\<lparr> running := Some ?f1 \<rparr>"
  let ?m2 = "m\<lparr> running := Some ?f2 \<rparr>"
  let ?m3 = "m\<lparr> running := Some ?f3 \<rparr>"
  note eqs = machine.equality store.equality activation.equality
  have at: "f_at (enter now message) = L73" "f_message (enter now message) = message"
    "f_clock (enter now message) = now"
    by (simp_all add: enter_def)
  have decided: "solo h cfg this (Suc (Suc (Suc (Suc 0)))) ?m3 ?Q"
  proof (cases "slots (memory m) s")
    case None
    let ?a = "allocated (memory m)"
    let ?f4 = "?f3\<lparr> f_at := L78, f_cacheEntry := ?a \<rparr>"
    let ?m4 = "m\<lparr> running := Some ?f4,
        memory := (memory m)\<lparr> objects := (objects (memory m))(?a := \<lparr> count = 0, lastSent = 0 \<rparr>),
                               allocated := Suc ?a \<rparr> \<rparr>"
    let ?f5 = "?f4\<lparr> f_at := L81 \<rparr>"
    let ?m5 = "m\<lparr> running := Some ?f5,
        memory := (memory m)\<lparr> objects := (objects (memory m))(?a := \<lparr> count = 1, lastSent = 0 \<rparr>),
                               allocated := Suc ?a \<rparr> \<rparr>"
    let ?f6 = "?f5\<lparr> f_at := L101 \<rparr>"
    let ?m6 = "?m5\<lparr> running := Some ?f6 \<rparr>"
    let ?f7 = "?f6\<lparr> f_at := L103 \<rparr>"
    let ?m7 = "m\<lparr> running := Some ?f7,
        memory := (memory m)\<lparr> allocated := Suc ?a,
                               objects := (objects (memory m))(?a := \<lparr> count = 1, lastSent = 0 \<rparr>),
                               slots := (slots (memory m))(s \<mapsto> ?a) \<rparr> \<rparr>"
    from None assms(5) have entry: "entry = \<lparr> count = 0, lastSent = 0 \<rparr>"
      by (simp add: contents_def)
    have s7: "solo h cfg this 0 ?m7 ?Q"
      apply (rule solo_done)
      using contents_fresh [OF assms(1), where entry = "\<lparr> count = 1, lastSent = 0 \<rparr>" and key = s] entry
      apply simp
      done
    have s6: "solo h cfg this (Suc 0) ?m6 ?Q"
      by (rule solo_next [where f = ?f6, OF _ _ _ s7])
        (auto simp add: statement_def Let_def intro!: eqs)
    have s5: "solo h cfg this (Suc (Suc 0)) ?m5 ?Q"
      using assms(6) entry by (intro solo_next [where f = ?f5, OF _ _ _ s6])
        (auto simp add: statement_def Let_def intro!: eqs)
    have s4: "solo h cfg this (Suc (Suc (Suc 0))) ?m4 ?Q"
      by (rule solo_next [where f = ?f4, OF _ _ _ s5])
        (auto simp add: statement_def Let_def intro!: eqs)
    show ?thesis
      using None by (intro solo_next [where f = ?f3, OF _ _ _ s4])
        (auto simp add: statement_def Let_def intro!: eqs)
  next
    case (Some a)
    let ?e = "objects (memory m) a"
    let ?f4 = "?f3\<lparr> f_at := L78, f_cacheEntry := a \<rparr>"
    let ?m4 = "m\<lparr> running := Some ?f4 \<rparr>"
    let ?f5 = "?f4\<lparr> f_at := L81 \<rparr>"
    let ?m5 = "m\<lparr> running := Some ?f5,
        memory := (memory m)\<lparr> objects := (objects (memory m))
            (a := \<lparr> count = count ?e + 1, lastSent = lastSent ?e \<rparr>) \<rparr> \<rparr>"
    let ?f6 = "?f5\<lparr> f_at := L101 \<rparr>"
    let ?m6 = "?m5\<lparr> running := Some ?f6 \<rparr>"
    let ?f7 = "?f6\<lparr> f_at := L103 \<rparr>"
    let ?m7 = "m\<lparr> running := Some ?f7,
        memory := (memory m)\<lparr> objects := (objects (memory m))
            (a := \<lparr> count = count ?e + 1, lastSent = lastSent ?e \<rparr>),
          slots := (slots (memory m))(s \<mapsto> a) \<rparr> \<rparr>"
    from Some assms(5) have entry: "entry = ?e"
      by (simp add: contents_def)
    have s7: "solo h cfg this 0 ?m7 ?Q"
      apply (rule solo_done)
      using contents_stored [OF assms(1) Some,
          where entry = "\<lparr> count = count ?e + 1, lastSent = lastSent ?e \<rparr>"] entry
      apply simp
      done
    have s6: "solo h cfg this (Suc 0) ?m6 ?Q"
      by (rule solo_next [where f = ?f6, OF _ _ _ s7])
        (auto simp add: statement_def Let_def intro!: eqs)
    have s5: "solo h cfg this (Suc (Suc 0)) ?m5 ?Q"
      using assms(6) entry by (intro solo_next [where f = ?f5, OF _ _ _ s6])
        (auto simp add: statement_def Let_def intro!: eqs)
    have s4: "solo h cfg this (Suc (Suc (Suc 0))) ?m4 ?Q"
      by (rule solo_next [where f = ?f4, OF _ _ _ s5])
        (auto simp add: statement_def Let_def entry_bump intro!: eqs)
    show ?thesis
      using Some by (intro solo_next [where f = ?f3, OF _ _ _ s4])
        (auto simp add: statement_def Let_def intro!: eqs)
  qed
  have s2: "solo h cfg this (Suc (Suc (Suc (Suc (Suc 0))))) ?m2 ?Q"
    by (rule solo_next [where f = ?f2, OF _ _ _ decided])
      (auto simp add: statement_def Let_def at intro!: eqs)
  have s1: "solo h cfg this (Suc (Suc (Suc (Suc (Suc (Suc 0)))))) ?m1 ?Q"
    by (rule solo_next [where f = ?f1, OF _ _ _ s2])
      (auto simp add: statement_def Let_def assms(4) intro!: eqs)
  have s0: "solo h cfg this (Suc (Suc (Suc (Suc (Suc (Suc (Suc 0))))))) m ?Q"
    using assms(2) by (intro solo_next [where f = "enter now message", OF _ _ _ s1])
      (auto simp add: statement_def Let_def at assms(3) intro!: eqs)
  have "Suc (Suc (Suc (Suc (Suc (Suc (Suc 0)))))) = (7::nat)"
    by simp
  with s0 show ?thesis by (simp only:)
qed

lemma call_throws:
  assumes "running m = Some (enter now message)"
    and "mailTransportInstance_write h cfg this now message = Inl e"
  shows "\<exists>n. solo h cfg this n m
           (\<lambda>m'. m' = m\<lparr> running := running m' \<rparr>
                \<and> (\<exists>f'. running m' = Some f' \<and> f_at f' = Thrown e))"
    (is "\<exists>n. solo h cfg this n m ?Q")
proof (cases "JSON_parse message")
  case (Inl e')
  with assms(2) have e: "e' = e" by (simp add: write_unparsed)
  let ?f1 = "(enter now message)\<lparr> f_at := Thrown e \<rparr>"
  have s1: "solo h cfg this 0 (m\<lparr> running := Some ?f1 \<rparr>) ?Q"
    by (rule solo_done) simp
  have "solo h cfg this (Suc 0) m ?Q"
    using assms(1) Inl e by (intro solo_next [where f = "enter now message", OF _ _ _ s1])
      (auto simp add: statement_def Let_def enter_def)
  then show ?thesis ..
next
  case (Inr parsed)
  show ?thesis
  proof (cases "cacheKey (Number_toString h) parsed")
    case (Inl e')
    with assms(2) Inr have e: "e' = e" by (simp add: write_no_key)
    let ?f1 = "(enter now message)\<lparr> f_at := L74, f_parsedMessage := parsed \<rparr>"
    let ?f2 = "?f1\<lparr> f_at := Thrown e \<rparr>"
    have s2: "solo h cfg this 0 (m\<lparr> running := Some ?f2 \<rparr>) ?Q"
      by (rule solo_done) simp
    have s1: "solo h cfg this (Suc 0) (m\<lparr> running := Some ?f1 \<rparr>) ?Q"
      using Inl e by (intro solo_next [where f = ?f1, OF _ _ _ s2])
        (auto simp add: statement_def Let_def)
    have "solo h cfg this (Suc (Suc 0)) m ?Q"
      using assms(1) Inr by (intro solo_next [where f = "enter now message", OF _ _ _ s1])
        (auto simp add: statement_def Let_def enter_def)
    then show ?thesis ..
  next
    case key: (Inr s)
    from assms(2) show ?thesis
      by (simp add: write_parsed [OF Inr key] split: if_splits)
  qed
qed

text \<open>
  The machine and the function agree: a call that has just entered, on a store that
  shows the cache of the logger, runs alone up to its throw or to its callback, and
  leaves the store and the mails that the function returns.
\<close>

lemma call_refines:
  assumes "sound (memory m)" and "running m = Some (enter now message)"
    and "contents (memory m) = dailyErrorCache this"
  shows "\<exists>n. solo h cfg this n m
           (\<lambda>m'. case mailTransportInstance_write h cfg this now message of
                    Inl e \<Rightarrow>
                      memory m' = memory m \<and> handed m' = handed m
                      \<and> (\<exists>f'. running m' = Some f' \<and> f_at f' = Thrown e)
                  | Inr (this', d) \<Rightarrow>
                      contents (memory m') = dailyErrorCache this' \<and> sound (memory m')
                      \<and> handed m' = handed m @ sent d
                      \<and> (\<exists>f'. running m' = Some f' \<and> f_at f' = L103))"
proof (cases "mailTransportInstance_write h cfg this now message")
  case (Inl e)
  from call_throws [OF assms(2) Inl] obtain n where
    n: "solo h cfg this n m (\<lambda>m'. m' = m\<lparr> running := running m' \<rparr>
          \<and> (\<exists>f'. running m' = Some f' \<and> f_at f' = Thrown e))"
    by blast
  have "solo h cfg this n m (\<lambda>m'. memory m' = memory m \<and> handed m' = handed m
          \<and> (\<exists>f'. running m' = Some f' \<and> f_at f' = Thrown e))"
    using n unfolding solo_def
    by (metis (no_types, lifting) machine.select_convs machine.surjective machine.update_convs)
  with Inl show ?thesis by auto
next
  case (Inr r)
  obtain parsed where parsed: "JSON_parse message = Inr parsed"
    using Inr by (cases "JSON_parse message") (simp_all add: write_unparsed)
  obtain s where key: "cacheKey (Number_toString h) parsed = Inr s"
    using Inr parsed by (cases "cacheKey (Number_toString h) parsed") (simp_all add: write_no_key)
  define entry where "entry = (case contents (memory m) s of
      Some stored \<Rightarrow> stored | None \<Rightarrow> \<lparr> count = 0, lastSent = 0 \<rparr>)"
  have found: "get_or_new this s = entry"
    by (simp add: get_or_new_def entry_def assms(3))
  show ?thesis
  proof (cases "now - lastSent entry > dailyErrorCacheTimeMs this")
    case True
    from call_sends [OF assms(1,2) parsed key entry_def True, of cfg]
    show ?thesis
      unfolding solo_def
      by (intro exI [of _ "length (EMAIL_TO cfg) + 11"])
        (simp add: write_parsed [OF parsed key] found True assms(3) sent_dispatch)
  next
    case False
    from call_absorbs [OF assms(1,2) parsed key entry_def False, of cfg]
    show ?thesis
      unfolding solo_def
      by (intro exI [of _ 7])
        (simp add: write_parsed [OF parsed key] found False assms(3))
  qed
qed

lemma seen_machine_simps [simp]:
  "running seen_machine = Some (enter 160000 disk_full)"
  "memory seen_machine = seen_store"
  "inbox seen_machine = [(160001, disk_full)]"
  "handed seen_machine = []"
  "awaiting seen_machine = []"
  by (simp_all add: seen_machine_def)

lemma seen_store_sound: "sound seen_store"
  by (simp add: sound_def seen_store_def)

lemma seen_store_contents: "contents seen_store = dailyErrorCache seen_logger"
  by (simp add: contents_def seen_store_def seen_logger_def fun_eq_iff)

section \<open>The deduplication step\<close>

text \<open>
  C1. An error record with signature \<open>s\<close> arrives at time \<open>now\<close>. The handler looks the
  signature up in the cache: \<open>entry\<close> is the entry that the map holds for \<open>s\<close>, or, if it
  holds none, a new one with count and last send \<open>0\<close>. The handler counts the occurrence
  and sends exactly when \<open>now - lastSent\<close> is strictly greater than the window: then
  every recipient gets a mail whose subject carries the incremented count, and the
  entry is stored with count \<open>0\<close> and last send \<open>now\<close>; otherwise nothing is sent and the
  entry is stored with the incremented count and the same last send. At
  \<open>now - lastSent\<close> equal to the window nothing is sent.
\<close>

theorem C1_dedup_step:
  assumes "JSON_parse message = Inr parsed"
    and "cacheKey (Number_toString h) parsed = Inr s"
    and "entry = (case dailyErrorCache this s of
                    Some stored \<Rightarrow> stored
                  | None \<Rightarrow> \<lparr> count = 0, lastSent = 0 \<rparr>)"
  shows "\<exists>this' d. mailTransportInstance_write h cfg this now message = Inr (this', d)
     \<and> (if now - lastSent entry > dailyErrorCacheTimeMs this
        then sent d = one_per_recipient cfg (emailSubject this (count entry + 1)) message
           \<and> dailyErrorCache this' s = Some \<lparr> count = 0, lastSent = now \<rparr>
        else sent d = []
           \<and> dailyErrorCache this' s = Some \<lparr> count = count entry + 1, lastSent = lastSent entry \<rparr>)
     \<and> (now - lastSent entry = dailyErrorCacheTimeMs this \<longrightarrow> sent d = [])"
  by (simp add: write_parsed [OF assms(1,2)] sent_dispatch get_or_new_lookup [OF assms(3)])

text \<open>
  The logger that holds the entry with count 2 and last send 90000, window one minute.
  The record at 150000 is at the boundary: nothing is sent and the stored count is 3.
  The record at 150001 is mailed, reporting 3 occurrences, and the entry is reset.
\<close>

theorem C1_dedup_step_witness:
  "dailyErrorCache seen_logger disk_full_key = Some \<lparr> count = 2, lastSent = 90000 \<rparr>
   \<and> sent_by (mailTransportInstance_write example_host example_config seen_logger 150000 disk_full)
     = []
   \<and> cache_after (mailTransportInstance_write example_host example_config seen_logger 150000 disk_full)
       disk_full_key
     = Some \<lparr> count = 3, lastSent = 90000 \<rparr>
   \<and> map mail_subject
       (sent_by (mailTransportInstance_write example_host example_config seen_logger 150001 disk_full))
     = [js ''app Error (3 occurrences in past 1 minutes)'']
   \<and> cache_after (mailTransportInstance_write example_host example_config seen_logger 150001 disk_full)
       disk_full_key
     = Some \<lparr> count = 0, lastSent = 150001 \<rparr>"
proof -
  have stored: "\<lparr> count = 2, lastSent = 90000 \<rparr>
      = (case dailyErrorCache seen_logger disk_full_key of
           Some stored \<Rightarrow> stored
         | None \<Rightarrow> \<lparr> count = 0, lastSent = 0 \<rparr>)"
    by simp
  from C1_dedup_step [OF disk_full_parsed disk_full_example_key stored, of example_config 150000]
    C1_dedup_step [OF disk_full_parsed disk_full_example_key stored, of example_config 150001]
  show ?thesis
    by (auto simp add: cache_after_def sent_by_def one_per_recipient_def
        minute_subject decimal.simps js_def)
qed

section \<open>A batch inside one window\<close>

text \<open>
  Two records of one fresh signature, one millisecond apart, under a window of one
  minute: one mail is sent, by the first record, and its subject reports 1 occurrence,
  not 2.
\<close>

theorem C2_two_events_counterexample:
  "subjects_sent (snd (writes example_host example_config minute_logger
       [(100000, disk_full), (100001, disk_full)]))
     = [js ''app Error (1 occurrences in past 1 minutes)'']
   \<and> js ''app Error (1 occurrences in past 1 minutes)''
     \<noteq> js ''app Error (2 occurrences in past 1 minutes)''"
  by (simp add: write_disk_full get_or_new_def subjects_sent_def sent_dispatch
      one_per_recipient_def minute_subject decimal.simps js_def)

text \<open>
  C2, as the code has it. The window is positive. Records of one signature \<open>s\<close> arrive
  at \<open>t1\<close> and then at times no later than the window after \<open>t1\<close>; at \<open>t1\<close> the send
  decision is true for the entry that the map holds for \<open>s\<close> (a new one with count and
  last send \<open>0\<close> if it holds none). Then the batch sends once, with its first record,
  one mail to each recipient; the subject reports the occurrences counted up to and
  including that record (1 for a signature without an entry), not the size of the
  batch. Every other record of the batch sends nothing and is counted: afterwards the
  entry has the count of those records and last send \<open>t1\<close>. The next record of \<open>s\<close>
  later than the window after \<open>t1\<close> sends the mail that reports those records and
  itself. Subjects that report different counts are different strings.
\<close>

theorem C2_batch:
  assumes "\<forall>(t, m) \<in> set ((t1, m1) # rest).
             \<exists>p. JSON_parse m = Inr p \<and> cacheKey (Number_toString h) p = Inr s"
    and "0 < dailyErrorCacheTimeMs this"
    and "entry = (case dailyErrorCache this s of
                    Some stored \<Rightarrow> stored
                  | None \<Rightarrow> \<lparr> count = 0, lastSent = 0 \<rparr>)"
    and "t1 - lastSent entry > dailyErrorCacheTimeMs this"
    and "\<forall>(t, m) \<in> set rest. t - t1 \<le> dailyErrorCacheTimeMs this"
  shows "writes h cfg this ((t1, m1) # rest) =
           (this\<lparr> dailyErrorCache :=
               (dailyErrorCache this)(s \<mapsto> \<lparr> count = length rest, lastSent = t1 \<rparr>) \<rparr>,
            Inr (dispatch h cfg (counted_subject this (count entry + 1)) m1)
              # replicate (length rest) (Inr \<lparr> sent = [], console_error = [] \<rparr>))
     \<and> (\<forall>t m p. JSON_parse m = Inr p \<and> cacheKey (Number_toString h) p = Inr s
            \<and> t - t1 > dailyErrorCacheTimeMs this \<longrightarrow>
          (\<exists>this' d. mailTransportInstance_write h cfg
               (this\<lparr> dailyErrorCache :=
                  (dailyErrorCache this)(s \<mapsto> \<lparr> count = length rest, lastSent = t1 \<rparr>) \<rparr>) t m
               = Inr (this', d)
             \<and> sent d = one_per_recipient cfg (counted_subject this (length rest + 1)) m))
     \<and> (\<forall>n k. counted_subject this n = counted_subject this k \<longrightarrow> n = k)"
proof -
  from assms(1) obtain p1 where
    p1: "JSON_parse m1 = Inr p1" "cacheKey (Number_toString h) p1 = Inr s"
    by auto
  note found = get_or_new_lookup [OF assms(3)]
  note subject = emailSubject_counted [OF assms(2)]
  let ?sent = "this\<lparr> dailyErrorCache :=
      (dailyErrorCache this)(s \<mapsto> \<lparr> count = 0, lastSent = t1 \<rparr>) \<rparr>"
  have first: "mailTransportInstance_write h cfg this t1 m1
      = Inr (?sent, dispatch h cfg (counted_subject this (count entry + 1)) m1)"
    using assms(4) by (simp add: write_parsed [OF p1] found subject)
  have rest: "\<forall>(t, m) \<in> set rest.
             (\<exists>p. JSON_parse m = Inr p \<and> cacheKey (Number_toString h) p = Inr s)
             \<and> t - t1 \<le> dailyErrorCacheTimeMs ?sent"
    using assms(1,5) by auto
  have stored: "dailyErrorCache ?sent s = Some \<lparr> count = 0, lastSent = t1 \<rparr>"
    by simp
  have run: "writes h cfg this ((t1, m1) # rest) =
           (this\<lparr> dailyErrorCache :=
               (dailyErrorCache this)(s \<mapsto> \<lparr> count = length rest, lastSent = t1 \<rparr>) \<rparr>,
            Inr (dispatch h cfg (counted_subject this (count entry + 1)) m1)
              # replicate (length rest) (Inr \<lparr> sent = [], console_error = [] \<rparr>))"
    by (simp add: first writes_absorbed [OF rest stored])
  have later: "\<exists>this' d. mailTransportInstance_write h cfg
               (this\<lparr> dailyErrorCache :=
                  (dailyErrorCache this)(s \<mapsto> \<lparr> count = length rest, lastSent = t1 \<rparr>) \<rparr>) t m
               = Inr (this', d)
             \<and> sent d = one_per_recipient cfg (counted_subject this (length rest + 1)) m"
    if "JSON_parse m = Inr p" "cacheKey (Number_toString h) p = Inr s"
      "t - t1 > dailyErrorCacheTimeMs this" for t m p
    using that(3) by (simp add: write_parsed [OF that(1,2)] sent_dispatch subject)
  have apart: "\<forall>n k. counted_subject this n = counted_subject this k \<longrightarrow> n = k"
    using counted_subject_inj by blast
  from run later apart show ?thesis by blast
qed

text \<open>
  Three records of a fresh signature within 30 seconds, window one minute: one mail,
  reporting 1 occurrence; the entry then counts 2; the record at 160001 sends the mail
  that reports 3.
\<close>

theorem C2_batch_witness:
  "subjects_sent (snd (writes example_host example_config minute_logger
       [(100000, disk_full), (100001, disk_full), (130000, disk_full)]))
     = [js ''app Error (1 occurrences in past 1 minutes)'']
   \<and> dailyErrorCache (fst (writes example_host example_config minute_logger
       [(100000, disk_full), (100001, disk_full), (130000, disk_full)])) disk_full_key
     = Some \<lparr> count = 2, lastSent = 100000 \<rparr>
   \<and> map mail_subject (sent_by (mailTransportInstance_write example_host example_config
        (fst (writes example_host example_config minute_logger
           [(100000, disk_full), (100001, disk_full), (130000, disk_full)])) 160001 disk_full))
     = [js ''app Error (3 occurrences in past 1 minutes)'']"
proof -
  have h1: "\<forall>(t, m) \<in> set ((100000, disk_full) # [(100001, disk_full), (130000, disk_full)]).
      \<exists>p. JSON_parse m = Inr p \<and> cacheKey (Number_toString example_host) p = Inr disk_full_key"
    using disk_full_parsed disk_full_example_key by simp
  have h2: "0 < dailyErrorCacheTimeMs minute_logger" by simp
  have h3: "\<lparr> count = 0, lastSent = 0 \<rparr>
      = (case dailyErrorCache minute_logger disk_full_key of
           Some stored \<Rightarrow> stored
         | None \<Rightarrow> \<lparr> count = 0, lastSent = 0 \<rparr>)"
    by simp
  have h4: "100000 - lastSent \<lparr> count = 0, lastSent = 0 \<rparr> > dailyErrorCacheTimeMs minute_logger"
    by simp
  have h5: "\<forall>(t, m) \<in> set [(100001, disk_full), (130000 :: int, disk_full)].
      t - 100000 \<le> dailyErrorCacheTimeMs minute_logger"
    by simp
  note batch = C2_batch [OF h1 h2 h3 h4 h5, of example_config]
  from batch [THEN conjunct2, THEN conjunct1, rule_format, of disk_full _ 160001]
    disk_full_parsed disk_full_example_key
  obtain this' d where later:
    "mailTransportInstance_write example_host example_config
       (minute_logger\<lparr> dailyErrorCache :=
          [disk_full_key \<mapsto> \<lparr> count = Suc (Suc 0), lastSent = 100000 \<rparr>] \<rparr>)
       160001 disk_full = Inr (this', d)"
    "sent d = one_per_recipient example_config (counted_subject minute_logger 3) disk_full"
    by (auto simp add: numeral_3_eq_3)
  show ?thesis
    unfolding batch [THEN conjunct1]
    by (simp add: later subjects_sent_def sent_by_def sent_dispatch
        one_per_recipient_def minute_counted decimal.simps js_def)
qed

section \<open>The entry after a send\<close>

text \<open>
  C3. The send decision is true for the signature \<open>s\<close> of a record: \<open>now - lastSent\<close>
  is greater than the window for the entry that the map holds for \<open>s\<close>, or for a new one
  if it holds none. Then the call sends, and stores the entry of \<open>s\<close> with count \<open>0\<close> and
  last send \<open>now\<close>; the next record of \<open>s\<close> is decided against that entry, so that it
  sends exactly when it is later than the window after \<open>now\<close>.

  Decision and update are one step of the process. Take any state of the process in
  which the handler has just been called with the record, on a store that shows the
  cache of the logger. The call needs eleven statements and one more for each recipient
  to come from its first line past the \<open>set\<close> of line 101. That many turns are possible,
  and in every sequence of at most that many turns each turn is a statement of this
  call: no other record is handed to the handler, the timer does not clear the map,
  and no other job runs, before the entry is stored. After these turns the store
  shows the cache that the call returns, with the entry of \<open>s\<close> reset, the mails of the
  call have been handed to the transport, and the records that the stream has buffered
  are still buffered.
\<close>

theorem C3_reset_on_send:
  assumes "JSON_parse message = Inr parsed"
    and "cacheKey (Number_toString h) parsed = Inr s"
    and "entry = (case dailyErrorCache this s of
                    Some stored \<Rightarrow> stored | None \<Rightarrow> \<lparr> count = 0, lastSent = 0 \<rparr>)"
    and "now - lastSent entry > dailyErrorCacheTimeMs this"
    and "JSON_parse message' = Inr parsed'"
    and "cacheKey (Number_toString h) parsed' = Inr s"
  shows "\<exists>this' d. mailTransportInstance_write h cfg this now message = Inr (this', d)
     \<and> sent d = one_per_recipient cfg (emailSubject this (count entry + 1)) message
     \<and> dailyErrorCache this' s = Some \<lparr> count = 0, lastSent = now \<rparr>
     \<and> (\<exists>this'' d'. writes h cfg this [(now, message), (now', message')] = (this'', [Inr d, Inr d'])
          \<and> sent d' = (if now' - now > dailyErrorCacheTimeMs this
                        then one_per_recipient cfg (emailSubject this 1) message' else []))
     \<and> (\<forall>m. running m = Some (enter now message) \<and> sound (memory m)
              \<and> contents (memory m) = dailyErrorCache this \<longrightarrow>
           (\<exists>ls m'. turns h cfg this m ls m' \<and> length ls = length (EMAIL_TO cfg) + 11)
           \<and> (\<forall>ls m'. turns h cfg this m ls m' \<and> length ls \<le> length (EMAIL_TO cfg) + 11 \<longrightarrow>
                 (\<forall>l \<in> set ls. \<exists>pt. l = Statement pt)
                 \<and> (length ls = length (EMAIL_TO cfg) + 11 \<longrightarrow>
                       contents (memory m') = dailyErrorCache this'
                     \<and> handed m' = handed m @ sent d
                     \<and> inbox m' = inbox m \<and> awaiting m' = awaiting m)))"
proof -
  let ?this' = "this\<lparr> dailyErrorCache := (dailyErrorCache this)(s \<mapsto> \<lparr> count = 0, lastSent = now \<rparr>) \<rparr>"
  let ?d = "dispatch h cfg (emailSubject this (count entry + 1)) message"
  have call: "mailTransportInstance_write h cfg this now message = Inr (?this', ?d)"
    using assms(4) by (simp add: write_parsed [OF assms(1,2)] get_or_new_lookup [OF assms(3)])
  have sent: "sent ?d = one_per_recipient cfg (emailSubject this (count entry + 1)) message"
    by (simp add: sent_dispatch)
  have next_one: "\<exists>this'' d'. writes h cfg this [(now, message), (now', message')] = (this'', [Inr ?d, Inr d'])
          \<and> sent d' = (if now' - now > dailyErrorCacheTimeMs this
                        then one_per_recipient cfg (emailSubject this 1) message' else [])"
    by (simp add: call write_parsed [OF assms(5,6)] sent_dispatch)
  have alone: "(\<exists>ls m'. turns h cfg this m ls m' \<and> length ls = length (EMAIL_TO cfg) + 11)
           \<and> (\<forall>ls m'. turns h cfg this m ls m' \<and> length ls \<le> length (EMAIL_TO cfg) + 11 \<longrightarrow>
                 (\<forall>l \<in> set ls. \<exists>pt. l = Statement pt)
                 \<and> (length ls = length (EMAIL_TO cfg) + 11 \<longrightarrow>
                       contents (memory m') = dailyErrorCache ?this'
                     \<and> handed m' = handed m @ sent ?d
                     \<and> inbox m' = inbox m \<and> awaiting m' = awaiting m))"
    if m: "running m = Some (enter now message)" "sound (memory m)"
      "contents (memory m) = dailyErrorCache this" for m
  proof -
    from assms(3) m(3) have entry: "entry = (case contents (memory m) s of
        Some stored \<Rightarrow> stored | None \<Rightarrow> \<lparr> count = 0, lastSent = 0 \<rparr>)"
      by simp
    from call_sends [OF m(2) m(1) assms(1,2) entry assms(4), of cfg]
    show ?thesis
      unfolding solo_def by (simp add: m(3) sent_dispatch)
  qed
  have stored: "dailyErrorCache ?this' s = Some \<lparr> count = 0, lastSent = now \<rparr>"
    by simp
  from alone have alone': "\<forall>m. running m = Some (enter now message) \<and> sound (memory m)
              \<and> contents (memory m) = dailyErrorCache this \<longrightarrow>
           (\<exists>ls m'. turns h cfg this m ls m' \<and> length ls = length (EMAIL_TO cfg) + 11)
           \<and> (\<forall>ls m'. turns h cfg this m ls m' \<and> length ls \<le> length (EMAIL_TO cfg) + 11 \<longrightarrow>
                 (\<forall>l \<in> set ls. \<exists>pt. l = Statement pt)
                 \<and> (length ls = length (EMAIL_TO cfg) + 11 \<longrightarrow>
                       contents (memory m') = dailyErrorCache ?this'
                     \<and> handed m' = handed m @ sent ?d
                     \<and> inbox m' = inbox m \<and> awaiting m' = awaiting m))"
    by (intro allI impI) (elim conjE)
  show ?thesis
    apply (rule exI [of _ ?this'])
    apply (rule exI [of _ ?d])
    apply (intro conjI)
        apply (rule call)
       apply (rule sent)
      apply (rule stored)
     apply (rule next_one)
    apply (rule alone')
    done
qed

text \<open>
  The logger that counted two occurrences since 90000 sends at 160000, reporting 3,
  and stores count 0 and last send 160000; the record one millisecond later sends
  nothing. In the process, the call for the record of 160000 takes twelve turns, all
  of them its own statements, while the record of 160001 stays in the buffer.
\<close>

theorem C3_reset_on_send_witness:
  "cache_after (mailTransportInstance_write example_host example_config seen_logger 160000 disk_full)
       disk_full_key
     = Some \<lparr> count = 0, lastSent = 160000 \<rparr>
   \<and> subjects_sent (snd (writes example_host example_config seen_logger
        [(160000, disk_full), (160001, disk_full)]))
     = [js ''app Error (3 occurrences in past 1 minutes)'']
   \<and> (\<exists>ls m'. turns example_host example_config seen_logger seen_machine ls m'
        \<and> length ls = 12 \<and> (\<forall>l \<in> set ls. \<exists>pt. l = Statement pt)
        \<and> contents (memory m') disk_full_key = Some \<lparr> count = 0, lastSent = 160000 \<rparr>
        \<and> map mail_subject (handed m') = [js ''app Error (3 occurrences in past 1 minutes)'']
        \<and> inbox m' = [(160001, disk_full)])"
proof -
  have entry: "\<lparr> count = 2, lastSent = 90000 \<rparr>
      = (case dailyErrorCache seen_logger disk_full_key of
           Some stored \<Rightarrow> stored | None \<Rightarrow> \<lparr> count = 0, lastSent = 0 \<rparr>)"
    by simp
  have send: "160000 - lastSent \<lparr> count = 2, lastSent = 90000 \<rparr> > dailyErrorCacheTimeMs seen_logger"
    by simp
  from C3_reset_on_send [OF disk_full_parsed disk_full_example_key entry send
      disk_full_parsed disk_full_example_key, of example_config 160001]
  obtain this' d where everything:
    "mailTransportInstance_write example_host example_config seen_logger 160000 disk_full
        = Inr (this', d)
     \<and> sent d = one_per_recipient example_config
        (emailSubject seen_logger (count \<lparr> count = 2, lastSent = 90000 \<rparr> + 1)) disk_full
     \<and> dailyErrorCache this' disk_full_key = Some \<lparr> count = 0, lastSent = 160000 \<rparr>
     \<and> (\<exists>this'' d'. writes example_host example_config seen_logger
          [(160000, disk_full), (160001, disk_full)] = (this'', [Inr d, Inr d'])
        \<and> sent d' = (if 160001 - 160000 > dailyErrorCacheTimeMs seen_logger
              then one_per_recipient example_config (emailSubject seen_logger 1) disk_full else []))
     \<and> (\<forall>m. running m = Some (enter 160000 disk_full) \<and> sound (memory m)
              \<and> contents (memory m) = dailyErrorCache seen_logger \<longrightarrow>
           (\<exists>ls m'. turns example_host example_config seen_logger m ls m'
                \<and> length ls = length (EMAIL_TO example_config) + 11)
           \<and> (\<forall>ls m'. turns example_host example_config seen_logger m ls m'
                  \<and> length ls \<le> length (EMAIL_TO example_config) + 11 \<longrightarrow>
                 (\<forall>l \<in> set ls. \<exists>pt. l = Statement pt)
                 \<and> (length ls = length (EMAIL_TO example_config) + 11 \<longrightarrow>
                       contents (memory m') = dailyErrorCache this'
                     \<and> handed m' = handed m @ sent d
                     \<and> inbox m' = inbox m \<and> awaiting m' = awaiting m)))"
    by (elim exE) (rule that)
  note call = everything [THEN conjunct1]
    and sent = everything [THEN conjunct2, THEN conjunct1]
    and stored = everything [THEN conjunct2, THEN conjunct2, THEN conjunct1]
    and next_one = everything [THEN conjunct2, THEN conjunct2, THEN conjunct2, THEN conjunct1]
    and alone = everything [THEN conjunct2, THEN conjunct2, THEN conjunct2, THEN conjunct2]
  have n: "length (EMAIL_TO example_config) + 11 = 12"
    by simp
  from alone [rule_format, of seen_machine] seen_store_sound seen_store_contents
  have both: "(\<exists>ls m'. turns example_host example_config seen_logger seen_machine ls m' \<and> length ls = 12)
      \<and> (\<forall>ls m'. turns example_host example_config seen_logger seen_machine ls m' \<and> length ls \<le> 12 \<longrightarrow>
            (\<forall>l \<in> set ls. \<exists>pt. l = Statement pt)
            \<and> (length ls = 12 \<longrightarrow>
                  contents (memory m') = dailyErrorCache this' \<and> handed m' = sent d
                \<and> inbox m' = [(160001, disk_full)] \<and> awaiting m' = []))"
    unfolding n by simp
  note some = both [THEN conjunct1]
  have all: "(\<forall>l \<in> set ls. \<exists>pt. l = Statement pt)
          \<and> contents (memory m') = dailyErrorCache this'
          \<and> handed m' = sent d \<and> inbox m' = [(160001, disk_full)]"
    if "turns example_host example_config seen_logger seen_machine ls m'" "length ls = 12" for ls m'
    using both [THEN conjunct2, rule_format, of ls m'] that by simp
  from some obtain ls m' where
    path: "turns example_host example_config seen_logger seen_machine ls m'" "length ls = 12"
    by blast
  from all [OF path] path stored sent
  have third: "\<exists>ls m'. turns example_host example_config seen_logger seen_machine ls m'
        \<and> length ls = 12 \<and> (\<forall>l \<in> set ls. \<exists>pt. l = Statement pt)
        \<and> contents (memory m') disk_full_key = Some \<lparr> count = 0, lastSent = 160000 \<rparr>
        \<and> map mail_subject (handed m') = [js ''app Error (3 occurrences in past 1 minutes)'']
        \<and> inbox m' = [(160001, disk_full)]"
    apply (intro exI [of _ ls] exI [of _ m'])
    apply (simp add: one_per_recipient_def minute_subject decimal.simps js_def numeral_3_eq_3)
    done
  from call stored have first: "cache_after (mailTransportInstance_write example_host example_config
        seen_logger 160000 disk_full) disk_full_key = Some \<lparr> count = 0, lastSent = 160000 \<rparr>"
    by (simp add: cache_after_def)
  from next_one sent have second: "subjects_sent (snd (writes example_host example_config seen_logger
        [(160000, disk_full), (160001, disk_full)]))
     = [js ''app Error (3 occurrences in past 1 minutes)'']"
    by (auto simp add: subjects_sent_def one_per_recipient_def minute_subject decimal.simps js_def)
  from first second third show ?thesis by blast
qed

section \<open>No window\<close>

text \<open>
  With a window of \<open>0\<close> and the last send of the signature at 1000, the record that
  arrives at clock value 999 is not in the millisecond of that send, and yet it sends
  nothing. Nor does the first record of a signature at clock value 0.
\<close>

theorem C4_past_send_counterexample:
  "dailyErrorCacheTimeMs just_sent_logger = 0
   \<and> dailyErrorCache just_sent_logger disk_full_key = Some \<lparr> count = 0, lastSent = 1000 \<rparr>
   \<and> sent_by (mailTransportInstance_write example_host example_config just_sent_logger 999 disk_full)
     = []
   \<and> dailyErrorCacheTimeMs unbatched_logger = 0
   \<and> dailyErrorCache unbatched_logger disk_full_key = None
   \<and> sent_by (mailTransportInstance_write example_host example_config unbatched_logger 0 disk_full)
     = []"
  by (simp add: write_disk_full sent_by_def get_or_new_def)

text \<open>
  C4, as the code has it. With a window of \<open>0\<close> the decision compares the clock with
  the last send of the entry that the map holds for the signature, \<open>0\<close> if it holds none.
  A record at a clock value greater than that last send sends its own mail, with the
  subject that carries no count, and the entry is stored with count \<open>0\<close> and last send
  \<open>now\<close>. Every other record, in the millisecond of the last send or at an earlier clock
  value, sends nothing and is counted.
\<close>

theorem C4_zero_window:
  assumes "JSON_parse message = Inr parsed"
    and "cacheKey (Number_toString h) parsed = Inr s"
    and "dailyErrorCacheTimeMs this = 0"
    and "entry = (case dailyErrorCache this s of
                    Some stored \<Rightarrow> stored
                  | None \<Rightarrow> \<lparr> count = 0, lastSent = 0 \<rparr>)"
  shows "\<exists>this' d. mailTransportInstance_write h cfg this now message = Inr (this', d)
     \<and> (if lastSent entry < now
        then sent d = one_per_recipient cfg (name this @ js '' Error'') message
           \<and> dailyErrorCache this' s = Some \<lparr> count = 0, lastSent = now \<rparr>
        else sent d = []
           \<and> dailyErrorCache this' s = Some \<lparr> count = count entry + 1, lastSent = lastSent entry \<rparr>)"
  using assms(3)
  by (simp add: write_parsed [OF assms(1,2)] sent_dispatch get_or_new_lookup [OF assms(4)]
      emailSubject_plain)

text \<open>
  A logger constructed without a window, last send at 1000: the record at 1001 is
  mailed; the records at 1000 and at 999 are only counted.
\<close>

theorem C4_zero_window_witness:
  "map mail_subject
       (sent_by (mailTransportInstance_write example_host example_config just_sent_logger 1001 disk_full))
     = [js ''app Error'']
   \<and> cache_after (mailTransportInstance_write example_host example_config just_sent_logger 1001 disk_full)
       disk_full_key
     = Some \<lparr> count = 0, lastSent = 1001 \<rparr>
   \<and> sent_by (mailTransportInstance_write example_host example_config just_sent_logger 1000 disk_full)
     = []
   \<and> cache_after (mailTransportInstance_write example_host example_config just_sent_logger 1000 disk_full)
       disk_full_key
     = Some \<lparr> count = 1, lastSent = 1000 \<rparr>
   \<and> cache_after (mailTransportInstance_write example_host example_config just_sent_logger 999 disk_full)
       disk_full_key
     = Some \<lparr> count = 1, lastSent = 1000 \<rparr>"
proof -
  have w: "dailyErrorCacheTimeMs just_sent_logger = 0" by simp
  have stored: "\<lparr> count = 0, lastSent = 1000 \<rparr>
      = (case dailyErrorCache just_sent_logger disk_full_key of
           Some stored \<Rightarrow> stored
         | None \<Rightarrow> \<lparr> count = 0, lastSent = 0 \<rparr>)"
    by simp
  note z = C4_zero_window [OF disk_full_parsed disk_full_example_key w stored, of example_config]
  from z [of 1001] z [of 1000] z [of 999]
  show ?thesis
    by (auto simp add: cache_after_def sent_by_def one_per_recipient_def js_def)
qed

section \<open>After the daily clear\<close>

text \<open>
  A signature seen before, the cache cleared, the next record at 100000 under a window
  of one minute: the mail reports 1 occurrence, and the entry stored by that call has
  count 0, not 1.
\<close>

theorem C5_count_after_clear_counterexample:
  "cache_after (mailTransportInstance_write example_host example_config (clear seen_logger)
       100000 disk_full) disk_full_key
     = Some \<lparr> count = 0, lastSent = 100000 \<rparr>
   \<and> map mail_subject (sent_by (mailTransportInstance_write example_host example_config
       (clear seen_logger) 100000 disk_full))
     = [js ''app Error (1 occurrences in past 1 minutes)'']
   \<and> map_option count (cache_after (mailTransportInstance_write example_host example_config
       (clear seen_logger) 100000 disk_full) disk_full_key) \<noteq> Some 1"
  by (simp add: write_disk_full cache_after_def sent_by_def sent_dispatch one_per_recipient_def
      minute_subject decimal.simps js_def) (simp add: clear_def)

text \<open>
  C5, as the code has it. After the clear has emptied the map, the next record of a
  signature seen before is handled as a first one: at a clock value beyond the window
  it is mailed at once, and the cache then holds that one entry, with count \<open>0\<close> and
  last send \<open>now\<close>. Under a positive window the subject of the mail reports 1
  occurrence; under a window of \<open>0\<close> the subject carries no count.
\<close>

theorem C5_after_clear:
  assumes "JSON_parse message = Inr parsed"
    and "cacheKey (Number_toString h) parsed = Inr s"
    and "dailyErrorCacheTimeMs this < now"
  shows "\<exists>this' d. mailTransportInstance_write h cfg (clear this) now message = Inr (this', d)
     \<and> sent d = one_per_recipient cfg
         (if 0 < dailyErrorCacheTimeMs this then counted_subject this 1
          else name this @ js '' Error'') message
     \<and> dailyErrorCache this' = [s \<mapsto> \<lparr> count = 0, lastSent = now \<rparr>]"
proof -
  have subject: "emailSubject this 1 =
      (if 0 < dailyErrorCacheTimeMs this then counted_subject this 1 else name this @ js '' Error'')"
    by (simp add: emailSubject_def counted_subject_def)
  have window: "dailyErrorCacheTimeMs (clear this) = dailyErrorCacheTimeMs this"
    and cache: "dailyErrorCache (clear this) = Map.empty"
    by (simp_all add: clear_def)
  show ?thesis
    using assms(3)
    by (simp add: write_parsed [OF assms(1,2)] sent_dispatch window cache)
      (simp add: clear_def subject [simplified])
qed

text \<open>
  The one-minute logger, cleared, mails the record at 100000 with the subject that
  reports 1 occurrence and stores count 0; the logger without a window, cleared, mails
  the record at 5 with the subject without a count.
\<close>

theorem C5_after_clear_witness:
  "dailyErrorCache seen_logger disk_full_key = Some \<lparr> count = 2, lastSent = 90000 \<rparr>
   \<and> map mail_subject (sent_by (mailTransportInstance_write example_host example_config
       (clear seen_logger) 100000 disk_full))
     = [js ''app Error (1 occurrences in past 1 minutes)'']
   \<and> cache_after (mailTransportInstance_write example_host example_config (clear seen_logger)
       100000 disk_full) disk_full_key
     = Some \<lparr> count = 0, lastSent = 100000 \<rparr>
   \<and> map mail_subject (sent_by (mailTransportInstance_write example_host example_config
       (clear just_sent_logger) 5 disk_full))
     = [js ''app Error'']"
proof -
  have late: "dailyErrorCacheTimeMs seen_logger < 100000" by simp
  have late': "dailyErrorCacheTimeMs just_sent_logger < 5" by simp
  from C5_after_clear [OF disk_full_parsed disk_full_example_key late, of example_config]
    C5_after_clear [OF disk_full_parsed disk_full_example_key late', of example_config]
  show ?thesis
    by (auto simp add: cache_after_def sent_by_def one_per_recipient_def
        minute_counted decimal.simps js_def)
qed

section \<open>A record that is not sent\<close>

text \<open>
  C6. When the send decision is false, the call changes one thing: the count of the
  signature's entry grows by one. Its last send stays, no mail is handed to the
  transport and nothing is written to the console, every other entry of the cache is
  as before, and so are the name and the window.
\<close>

theorem C6_absorbed:
  assumes "JSON_parse message = Inr parsed"
    and "cacheKey (Number_toString h) parsed = Inr s"
    and "\<not> now - lastSent (get_or_new this s) > dailyErrorCacheTimeMs this"
  shows "\<exists>this'. mailTransportInstance_write h cfg this now message
         = Inr (this', \<lparr> sent = [], console_error = [] \<rparr>)
     \<and> dailyErrorCache this' s =
         Some \<lparr> count = count (get_or_new this s) + 1, lastSent = lastSent (get_or_new this s) \<rparr>
     \<and> (\<forall>k. k \<noteq> s \<longrightarrow> dailyErrorCache this' k = dailyErrorCache this k)
     \<and> name this' = name this
     \<and> dailyErrorCacheTimeMs this' = dailyErrorCacheTimeMs this"
  using assms(3) by (simp add: write_parsed [OF assms(1,2)])

text \<open>Ten seconds after the send at 90000, with two occurrences counted: the count is
  3, the last send stays at 90000, nothing is sent.\<close>

theorem C6_absorbed_witness:
  "cache_after (mailTransportInstance_write example_host example_config seen_logger 100000 disk_full)
       disk_full_key
     = Some \<lparr> count = 3, lastSent = 90000 \<rparr>
   \<and> sent_by (mailTransportInstance_write example_host example_config seen_logger 100000 disk_full)
     = []
   \<and> console_by (mailTransportInstance_write example_host example_config seen_logger 100000 disk_full)
     = []"
proof -
  have quiet: "\<not> 100000 - lastSent (get_or_new seen_logger disk_full_key)
      > dailyErrorCacheTimeMs seen_logger"
    by simp
  from C6_absorbed [OF disk_full_parsed disk_full_example_key quiet, of example_config]
  show ?thesis
    by (auto simp add: cache_after_def sent_by_def console_by_def)
qed

section \<open>One send for each recipient\<close>



section \<open>A record without level and message\<close>



section \<open>The recipients in the environment\<close>

text \<open>
  The entry \<open>a@b..c\<close> is not a valid address, for the empty label in its domain. The
  parse of the configuration accepts it as the only recipient, and the program
  starts.
\<close>

theorem C9_invalid_address_counterexample:
  "\<not> valid_address (js ''a@b..c'')
   \<and> map_sum id EMAIL_TO (config example_zod lenient_env) = Inr [js ''a@b..c'']
   \<and> map_sum id (\<lambda>r. EMAIL_TO (fst r)) (startup example_zod lenient_env example_options)
     = Inr [js ''a@b..c'']"
  by (simp add: double_dot_invalid lenient_parsed startup_def)

text \<open>
  C9, as the code has it. The configuration is parsed when the program starts, before
  a logger can be constructed. If an entry of \<open>EMAIL_TO\<close>, split at the commas and
  trimmed, is not of the shape \<open>local@domain.tld\<close>, three parts that are not empty and
  contain neither white space nor \<open>@\<close>, the parse throws, and so does the start. A
  parse that succeeds had an \<open>EMAIL_TO\<close>, and its recipients are the trimmed entries:
  at least one, each of that shape. A logger is only constructed after a parse that
  succeeded; every failure of the parse is the failure of the start.
\<close>

theorem C9_email_to_checked:
  "(env_EMAIL_TO env = Some str
      \<and> (\<exists>entry \<in> set (map trim (split_on 0x2C str)). \<not> shaped entry)
     \<longrightarrow> (\<exists>e. config z env = Inl e) \<and> (\<exists>e. startup z env options = Inl e))
   \<and> (env_EMAIL_TO env = None \<longrightarrow> config z env = Inl ZodError)
   \<and> (config z env = Inr cfg
     \<longrightarrow> (\<exists>str. env_EMAIL_TO env = Some str \<and> EMAIL_TO cfg = map trim (split_on 0x2C str))
         \<and> EMAIL_TO cfg \<noteq> []
         \<and> (\<forall>a \<in> set (EMAIL_TO cfg). shaped a))
   \<and> (startup z env options = Inr (cfg, logger) \<longrightarrow> config z env = Inr cfg)
   \<and> (config z env = Inl e \<longrightarrow> startup z env options = Inl e)"
proof (intro conjI impI)
  assume a: "env_EMAIL_TO env = Some str
      \<and> (\<exists>entry \<in> set (map trim (split_on 0x2C str)). \<not> shaped entry)"
  then obtain e where e: "EMAIL_TO_transform str = Inl e"
    using transform_fails [of str] by (auto simp add: shaped_test)
  with a have c: "config z env = Inl e"
    by (simp add: config_def)
  from c show "\<exists>e. config z env = Inl e" ..
  from c have "startup z env options = Inl e"
    by (simp add: startup_def)
  then show "\<exists>e. startup z env options = Inl e" ..
next
  assume "env_EMAIL_TO env = None"
  then show "config z env = Inl ZodError"
    by (simp add: config_def)
next
  assume c: "config z env = Inr cfg"
  from config_succeeds [OF c] obtain str where
    s: "env_EMAIL_TO env = Some str" "EMAIL_TO_transform str = Inr (EMAIL_TO cfg)"
    by blast
  note t = transform_succeeds [OF s(2)]
  from s(1) t show "\<exists>str. env_EMAIL_TO env = Some str \<and> EMAIL_TO cfg = map trim (split_on 0x2C str)"
    by blast
  from t show "EMAIL_TO cfg \<noteq> []" by blast
  from t show "\<forall>a \<in> set (EMAIL_TO cfg). shaped a" by (simp add: shaped_test)
next
  assume "startup z env options = Inr (cfg, logger)"
  then show "config z env = Inr cfg"
    by (simp add: startup_def split: sum.splits)
next
  assume "config z env = Inl e"
  then show "startup z env options = Inl e"
    by (simp add: startup_def)
qed

text \<open>
  The environment with the entry \<open>not-an-email\<close> fails to parse and to start; the
  two recipients of the example environment are of the shape.
\<close>

theorem C9_email_to_checked_witness:
  "(\<exists>e. config example_zod bad_env = Inl e)
   \<and> (\<exists>e. startup example_zod bad_env example_options = Inl e)
   \<and> shaped (js ''ops@example.com'')
   \<and> shaped (js ''dev@example.com'')"
proof -
  have bad: "env_EMAIL_TO bad_env = Some (js ''ops@example.com,not-an-email'')
      \<and> (\<exists>entry \<in> set (map trim (split_on 0x2C (js ''ops@example.com,not-an-email''))).
            \<not> shaped entry)"
    by (simp add: bad_env_def bad_env_entries not_shaped)
  from C9_email_to_checked [of bad_env _ example_zod example_options, THEN conjunct1, rule_format, OF bad]
    C9_email_to_checked [of example_env _ example_zod _, THEN conjunct2, THEN conjunct2,
        THEN conjunct1, rule_format, OF example_env_parsed]
  show ?thesis
    by simp
qed

section \<open>The first record of a signature\<close>

text \<open>
  C10. For a signature without an entry the last send counts as \<open>0\<close>, so the decision
  is \<open>now > window\<close>: at a clock value beyond the window the record is mailed, reporting
  1 occurrence; at a clock value up to the window even the first record of a signature
  sends nothing and is stored with count 1 and last send \<open>0\<close>.
\<close>

theorem C10_first_occurrence:
  assumes "JSON_parse message = Inr parsed"
    and "cacheKey (Number_toString h) parsed = Inr s"
    and "dailyErrorCache this s = None"
  shows "\<exists>this' d. mailTransportInstance_write h cfg this now message = Inr (this', d)
     \<and> (if now > dailyErrorCacheTimeMs this
        then sent d = one_per_recipient cfg (emailSubject this 1) message
           \<and> dailyErrorCache this' s = Some \<lparr> count = 0, lastSent = now \<rparr>
        else sent d = []
           \<and> dailyErrorCache this' s = Some \<lparr> count = 1, lastSent = 0 \<rparr>)"
  using assms(3) by (simp add: write_parsed [OF assms(1,2)] sent_dispatch get_or_new_def)

text \<open>Window one minute, empty cache: the record at 59999 sends nothing, the record at
  60001 is mailed.\<close>

theorem C10_first_occurrence_witness:
  "dailyErrorCache minute_logger disk_full_key = None
   \<and> sent_by (mailTransportInstance_write example_host example_config minute_logger 59999 disk_full)
     = []
   \<and> cache_after (mailTransportInstance_write example_host example_config minute_logger 59999 disk_full)
       disk_full_key
     = Some \<lparr> count = 1, lastSent = 0 \<rparr>
   \<and> map mail_subject (sent_by (mailTransportInstance_write example_host example_config minute_logger
       60001 disk_full))
     = [js ''app Error (1 occurrences in past 1 minutes)'']"
proof -
  have fresh: "dailyErrorCache minute_logger disk_full_key = None" by simp
  from C10_first_occurrence [OF disk_full_parsed disk_full_example_key fresh, of example_config 59999]
    C10_first_occurrence [OF disk_full_parsed disk_full_example_key fresh, of example_config 60001]
  show ?thesis
    by (auto simp add: sent_by_def cache_after_def one_per_recipient_def
        minute_subject decimal.simps js_def)
qed

end
